theory Spec2Isabelle
  imports Main "HOL-Library.Sublist" "HOL-Library.AList" "HOL-Library.Monad_Syntax"
begin

section \<open>The offline-first task store: data model\<close>

text \<open>
  The development embeds the two services that make up the synchronisation layer of the
  task manager: \<^verbatim>\<open>StorageService\<close> (key-value store, cache layer, task repository,
  offline queue) and \<^verbatim>\<open>ApiService\<close> (remote gateway and orchestrator).
  Both services have methods called \<^verbatim>\<open>getTasks\<close>, \<^verbatim>\<open>updateTask\<close> and
  \<^verbatim>\<open>deleteTask\<close>; the methods of \<^verbatim>\<open>StorageService\<close> carry the prefix \<open>ss_\<close>,
  those of \<^verbatim>\<open>ApiService\<close> keep their names.

  A JavaScript object is a record whose fields are options: \<open>None\<close> is a property that
  is absent (\<^verbatim>\<open>undefined\<close>). A task's \<^verbatim>\<open>id\<close> is the field \<open>tid\<close>, since \<open>id\<close> is
  the identity function of HOL. \<^verbatim>\<open>createdAt\<close> holds the instant that the ISO-8601 text
  denotes, in milliseconds since the epoch, which is what \<^verbatim>\<open>new Date(createdAt)\<close>
  yields in arithmetic.
\<close>

record task =
  tid :: "string option"
  title :: "string option"
  description :: "string option"
  priority :: "string option"
  image :: "string option"
  dueDate :: "string option"
  createdAt :: "int option"
  completed :: "bool option"
  completedAt :: "int option"
  source :: "string option"
  offline :: "bool option"
  synced :: "bool option"

definition no_fields :: task where
  "no_fields = \<lparr>tid = None, title = None, description = None, priority = None,
     image = None, dueDate = None, createdAt = None, completed = None,
     completedAt = None, source = None, offline = None, synced = None\<rparr>"

text \<open>
  The object spread \<^verbatim>\<open>{ ...a, ...b }\<close>: a property of \<open>b\<close> overrides that of \<open>a\<close>.
  In JavaScript a property of \<open>b\<close> that is present with the value \<^verbatim>\<open>null\<close> or
  \<^verbatim>\<open>undefined\<close> overrides as well; the records have no such property (\<open>None\<close> is a
  property that is absent), so \<open>spread\<close> covers the objects whose properties carry values.
\<close>

definition over :: "'a option \<Rightarrow> 'a option \<Rightarrow> 'a option" where
  "over x y = (case y of None \<Rightarrow> x | Some v \<Rightarrow> Some v)"

definition spread :: "task \<Rightarrow> task \<Rightarrow> task" where
  "spread a b = \<lparr>tid = over (tid a) (tid b), title = over (title a) (title b),
     description = over (description a) (description b),
     priority = over (priority a) (priority b), image = over (image a) (image b),
     dueDate = over (dueDate a) (dueDate b), createdAt = over (createdAt a) (createdAt b),
     completed = over (completed a) (completed b),
     completedAt = over (completedAt a) (completedAt b), source = over (source a) (source b),
     offline = over (offline a) (offline b), synced = over (synced a) (synced b)\<rparr>"

text \<open>An offline change \<^verbatim>\<open>{ action, task, timestamp }\<close>.\<close>

record change =
  action :: string
  task :: task
  timestamp :: int

text \<open>
  The values that the task subsystem serialises with \<^verbatim>\<open>JSON.stringify\<close> and reads back
  with \<^verbatim>\<open>JSON.parse\<close>: \<^verbatim>\<open>null\<close>, a string, an array of tasks, an array of offline
  changes, and the cache envelope \<^verbatim>\<open>{ data, timestamp, expirationTime }\<close>. The empty
  array is the same text under both array constructors; the readers below accept either.
  A stored item is the text of such a value, or text that \<^verbatim>\<open>JSON.parse\<close> rejects.
\<close>

datatype jval =
    Null
  | Str string
  | Tasks "task list"
  | Changes "change list"
  | Envelope jval int int

datatype item = Json jval | Text string

text \<open>JavaScript truthiness of a value, and of a task id (\<^verbatim>\<open>undefined\<close> and \<^verbatim>\<open>''\<close> are falsy).\<close>

fun truthy :: "jval \<Rightarrow> bool" where
  "truthy Null = False"
| "truthy (Str s) = (s \<noteq> [])"
| "truthy (Tasks ts) = True"
| "truthy (Changes cs) = True"
| "truthy (Envelope d t e) = True"

fun truthy_id :: "string option \<Rightarrow> bool" where
  "truthy_id None = False"
| "truthy_id (Some s) = (s \<noteq> [])"

text \<open>
  Reading a value as an array of tasks or of changes. \<open>None\<close> says that the value is not one:
  the code would then raise a \<^verbatim>\<open>TypeError\<close> (\<^verbatim>\<open>tasks.find is not a function\<close>) or
  run on objects of the wrong shape. Such stores are not written by the program and are
  outside the model; every operation that meets one returns \<open>None\<close>.
\<close>

fun as_tasks :: "jval \<Rightarrow> task list option" where
  "as_tasks (Tasks ts) = Some ts"
| "as_tasks (Changes []) = Some []"
| "as_tasks v = None"

fun as_changes :: "jval \<Rightarrow> change list option" where
  "as_changes (Changes cs) = Some cs"
| "as_changes (Tasks []) = Some []"
| "as_changes v = None"

section \<open>The world around the services\<close>

text \<open>
  \<open>storage\<close> is AsyncStorage, \<open>isOnline\<close> the connectivity flag of \<^verbatim>\<open>ApiService\<close>,
  \<open>clock\<close> the value of \<^verbatim>\<open>Date.now()\<close>; the clock does not move while one operation
  runs. \<open>requests\<close> logs the calls made through \<^verbatim>\<open>apiCall\<close>, oldest first, and
  \<open>draws\<close> counts the calls of \<^verbatim>\<open>Math.random\<close>. AsyncStorage itself is taken not to
  fail, so the \<^verbatim>\<open>catch\<close> branches that turn a failing medium into \<^verbatim>\<open>null\<close> or
  \<^verbatim>\<open>false\<close> have no counterpart.
\<close>

text \<open>A call of \<^verbatim>\<open>apiCall(endpoint, { method, body })\<close>.\<close>

record request =
  endpoint :: string
  httpMethod :: string
  body :: "task option"

record world =
  storage :: "string \<Rightarrow> item option"
  isOnline :: bool
  clock :: int
  requests :: "request list"
  draws :: nat

definition TASKS :: string where "TASKS = ''TASKS''"
definition CACHE_PREFIX :: string where "CACHE_PREFIX = ''CACHE_''"
definition OFFLINE_CHANGES :: string where "OFFLINE_CHANGES = ''OFFLINE_CHANGES''"

definition SHORT :: int where "SHORT = 5 * 60 * 1000"
definition MEDIUM :: int where "MEDIUM = 30 * 60 * 1000"
definition LONG :: int where "LONG = 24 * 60 * 60 * 1000"

section \<open>StorageService\<close>

subsection \<open>Key-value store\<close>

definition ss_get :: "string \<Rightarrow> world \<Rightarrow> jval" where
  "ss_get key w =
     (case storage w key of
        None \<Rightarrow> Null
      | Some (Text s) \<Rightarrow> if s = [] then Null else Str s
      | Some (Json v) \<Rightarrow> v)"

text \<open>
  \<^verbatim>\<open>set\<close> stores a string as it is and anything else as JSON. A string stored as it is
  is read back as a string when it is not itself JSON text (the theme names are not); a
  string that is JSON text (\<^verbatim>\<open>null\<close>, \<^verbatim>\<open>12\<close>, \<^verbatim>\<open>[]\<close>) is read back parsed, which
  \<open>Text\<close> does not express: \<open>ss_set\<close> is exact for the values that are not strings and
  for the strings that \<^verbatim>\<open>JSON.parse\<close> rejects. The task subsystem stores arrays and
  envelopes only.
\<close>

definition ss_set :: "string \<Rightarrow> jval \<Rightarrow> world \<Rightarrow> bool \<times> world" where
  "ss_set key v w =
     (let valueToStore = (case v of Str s \<Rightarrow> Text s | _ \<Rightarrow> Json v)
      in (True, w\<lparr>storage := (storage w)(key \<mapsto> valueToStore)\<rparr>))"

definition ss_remove :: "string \<Rightarrow> world \<Rightarrow> bool \<times> world" where
  "ss_remove key w = (True, w\<lparr>storage := (storage w)(key := None)\<rparr>)"

subsection \<open>Cache layer\<close>

text \<open>
  \<^verbatim>\<open>getCached\<close>: an empty stored string is falsy and left alone; text that does not
  parse is removed; a parsed value that is not an envelope has no \<^verbatim>\<open>timestamp\<close>, the
  comparison with \<^verbatim>\<open>NaN\<close> is false (destructuring \<^verbatim>\<open>null\<close> raises inside the
  \<^verbatim>\<open>try\<close>), and the entry is removed as well.
\<close>

definition ss_getCached :: "string \<Rightarrow> int \<Rightarrow> world \<Rightarrow> jval \<times> world" where
  "ss_getCached key expirationTime w =
     (let cacheKey = CACHE_PREFIX @ key in
      case storage w cacheKey of
        None \<Rightarrow> (Null, w)
      | Some (Text s) \<Rightarrow>
          if s = [] then (Null, w) else (Null, snd (ss_remove cacheKey w))
      | Some (Json (Envelope d ts e)) \<Rightarrow>
          if clock w - ts < expirationTime then (d, w)
          else (Null, snd (ss_remove cacheKey w))
      | Some (Json v) \<Rightarrow> (Null, snd (ss_remove cacheKey w)))"

definition ss_setCached :: "string \<Rightarrow> jval \<Rightarrow> int \<Rightarrow> world \<Rightarrow> bool \<times> world" where
  "ss_setCached key v expirationTime w =
     (let cacheKey = CACHE_PREFIX @ key;
          cacheData = Envelope v (clock w) expirationTime
      in (True, w\<lparr>storage := (storage w)(cacheKey \<mapsto> Json cacheData)\<rparr>))"

text \<open>Time passing between two operations.\<close>

definition advance :: "int \<Rightarrow> world \<Rightarrow> world" where
  "advance d w = w\<lparr>clock := clock w + d\<rparr>"

subsection \<open>Task repository\<close>

definition ss_getTasks :: "world \<Rightarrow> task list option" where
  "ss_getTasks w = (let v = ss_get TASKS w in if truthy v then as_tasks v else Some [])"

definition ss_saveTasks :: "task list \<Rightarrow> world \<Rightarrow> world" where
  "ss_saveTasks tasks w =
     (let w1 = snd (ss_set TASKS (Tasks tasks) w)
      in snd (ss_setCached ''tasks_list'' (Tasks tasks) SHORT w1))"

definition ss_getTaskById :: "string option \<Rightarrow> world \<Rightarrow> task option option" where
  "ss_getTaskById i w = do {
     tasks \<leftarrow> ss_getTasks w;
     Some (find (\<lambda>t. tid t = i) tasks)
   }"

text \<open>\<^verbatim>\<open>findIndex\<close>, with \<open>None\<close> for \<open>-1\<close>.\<close>

fun findIndex :: "('a \<Rightarrow> bool) \<Rightarrow> 'a list \<Rightarrow> nat option" where
  "findIndex P [] = None"
| "findIndex P (x # xs) = (if P x then Some 0 else map_option Suc (findIndex P xs))"

text \<open>
  \<^verbatim>\<open>Array.prototype.sort\<close> with a comparator: stable, \<open>a\<close> stays before \<open>b\<close> unless the
  comparator is positive. The comparator subtracts two dates; an absent or invalid date
  gives \<^verbatim>\<open>NaN\<close>, which \<^verbatim>\<open>sort\<close> reads as \<open>0\<close>. When every task has a date the
  comparator is consistent and the result is the one stable sort by descending date,
  which inserting from the right computes. With an absent or invalid date the
  comparator is not consistent and ECMAScript leaves the order to the engine: the order
  of \<open>sort_with\<close> is then one arrangement of the same tasks and need not be the engine's.
  The theorems state the order of a sorted list only when all its tasks have dates
  (\<open>newest_first\<close> below); for other lists they state what every arrangement shares:
  the tasks and their ids.
\<close>

definition byCreatedAtDesc :: "task \<Rightarrow> task \<Rightarrow> int" where
  "byCreatedAtDesc a b =
     (case (createdAt b, createdAt a) of (Some y, Some x) \<Rightarrow> y - x | _ \<Rightarrow> 0)"

fun insert_sorted :: "('a \<Rightarrow> 'a \<Rightarrow> int) \<Rightarrow> 'a \<Rightarrow> 'a list \<Rightarrow> 'a list" where
  "insert_sorted c x [] = [x]"
| "insert_sorted c x (y # ys) =
     (if 0 < c x y then y # insert_sorted c x ys else x # y # ys)"

definition sort_with :: "('a \<Rightarrow> 'a \<Rightarrow> int) \<Rightarrow> 'a list \<Rightarrow> 'a list" where
  "sort_with c xs = foldr (insert_sorted c) xs []"

definition ss_saveTask :: "task \<Rightarrow> world \<Rightarrow> (task \<times> world) option" where
  "ss_saveTask t w = do {
     tasks \<leftarrow> ss_getTasks w;
     let existingIndex = findIndex (\<lambda>x. tid x = tid t) tasks;
     let tasks' = (case existingIndex of Some i \<Rightarrow> tasks[i := t] | None \<Rightarrow> tasks @ [t]);
     let sorted = sort_with byCreatedAtDesc tasks';
     Some (t, ss_saveTasks sorted w)
   }"

definition ss_updateTask ::
  "string option \<Rightarrow> task \<Rightarrow> world \<Rightarrow> (task option \<times> world) option" where
  "ss_updateTask taskId updates w = do {
     tasks \<leftarrow> ss_getTasks w;
     case findIndex (\<lambda>t. tid t = taskId) tasks of
       Some i \<Rightarrow>
         (let tasks' = tasks[i := spread (tasks ! i) updates]
          in Some (Some (tasks' ! i), ss_saveTasks tasks' w))
     | None \<Rightarrow> Some (None, w)
   }"

definition ss_deleteTask :: "string option \<Rightarrow> world \<Rightarrow> (bool \<times> world) option" where
  "ss_deleteTask taskId w = do {
     tasks \<leftarrow> ss_getTasks w;
     let filtered = filter (\<lambda>t. tid t \<noteq> taskId) tasks;
     Some (True, ss_saveTasks filtered w)
   }"

subsection \<open>Offline queue\<close>

definition ss_getOfflineChanges :: "world \<Rightarrow> change list option" where
  "ss_getOfflineChanges w =
     (let v = ss_get OFFLINE_CHANGES w in if truthy v then as_changes v else Some [])"

definition ss_saveOfflineChanges :: "change list \<Rightarrow> world \<Rightarrow> bool \<times> world" where
  "ss_saveOfflineChanges changes w = ss_set OFFLINE_CHANGES (Changes changes) w"

definition ss_clearOfflineChanges :: "world \<Rightarrow> bool \<times> world" where
  "ss_clearOfflineChanges w = ss_remove OFFLINE_CHANGES w"

subsection \<open>Cache management\<close>

definition startsWith :: "string \<Rightarrow> string \<Rightarrow> bool" where
  "startsWith s p = prefix p s"

text \<open>\<^verbatim>\<open>clearCache\<close> removes every key of the store that starts with the cache prefix.\<close>

definition ss_clearCache :: "world \<Rightarrow> bool \<times> world" where
  "ss_clearCache w =
     (True, w\<lparr>storage :=
        (\<lambda>key. if startsWith key CACHE_PREFIX then None else storage w key)\<rparr>)"

section \<open>ApiService\<close>

subsection \<open>The remote gateway\<close>

text \<open>
  The remote system and the random number generator are outside the program. \<open>remote e n r\<close>
  is what \<^verbatim>\<open>apiCall\<close> does with the request \<open>r\<close> when \<open>n\<close> calls were made before it:
  \<open>Inl m\<close> throws an \<^verbatim>\<open>Error\<close> with message \<open>m\<close> (a response that is not 2xx, a network
  failure), \<open>Inr\<close> returns the parsed body. \<open>random e n\<close> is the \<open>n\<close>-th value of
  \<^verbatim>\<open>Math.floor(Math.random() * 1000)\<close>.
\<close>

record remote_item =
  r_id :: nat
  r_title :: string
  r_userId :: nat
  r_completed :: bool

datatype reply = Items "remote_item list" | Object task

record env =
  remote :: "nat \<Rightarrow> request \<Rightarrow> string + reply"
  random :: "nat \<Rightarrow> nat"

text \<open>Results \<^verbatim>\<open>{ success, data, source, offline, error }\<close> of the orchestrator.\<close>

record 'd response =
  success :: bool
  data :: "'d option"
  res_source :: "string option"
  res_offline :: "bool option"
  error :: "string option"

record sync_entry =
  taskId :: "string option"
  result :: "reply response"
  entry_action :: string

record sync_response =
  sync_success :: bool
  sync_error :: "string option"
  syncResults :: "sync_entry list option"

text \<open>Decimal text of a number, as a template literal prints it.\<close>

fun show_nat :: "nat \<Rightarrow> string" where
  "show_nat n =
     (if n < 10 then [char_of (48 + n)]
      else show_nat (n div 10) @ [char_of (48 + n mod 10)])"

definition show_int :: "int \<Rightarrow> string" where
  "show_int i = (if i < 0 then ''-'' @ show_nat (nat (- i)) else show_nat (nat i))"

definition show_id :: "string option \<Rightarrow> string" where
  "show_id i = (case i of None \<Rightarrow> ''undefined'' | Some s \<Rightarrow> s)"

definition generateUniqueId :: "env \<Rightarrow> world \<Rightarrow> string \<times> world" where
  "generateUniqueId e w =
     (''local-'' @ show_int (clock w) @ ''-'' @ show_nat (random e (draws w) mod 1000),
      w\<lparr>draws := Suc (draws w)\<rparr>)"

definition apiCall ::
  "env \<Rightarrow> string \<Rightarrow> string \<Rightarrow> task option \<Rightarrow> world \<Rightarrow> (string + reply) \<times> world" where
  "apiCall e url m b w =
     (let req = \<lparr>endpoint = url, httpMethod = m, body = b\<rparr>
      in (remote e (length (requests w)) req, w\<lparr>requests := requests w @ [req]\<rparr>))"

subsection \<open>Offline queue helper\<close>

definition addToOfflineChangesQueue :: "env \<Rightarrow> string \<Rightarrow> task \<Rightarrow> world \<Rightarrow> world option" where
  "addToOfflineChangesQueue e act taskData w =
     (let (i, w1) = (if truthy_id (tid taskData) then (tid taskData, w)
                     else (let (g, w') = generateUniqueId e w in (Some g, w')));
          chg = \<lparr>action = act, task = taskData\<lparr>tid := i, synced := Some False\<rparr>,
                 timestamp = clock w1\<rparr>
      in do {
        changes \<leftarrow> ss_getOfflineChanges w1;
        Some (snd (ss_saveOfflineChanges (changes @ [chg]) w1))
      })"

subsection \<open>Fetching with cache fallback\<close>

text \<open>The one-way adapter from remote items to tasks inside \<^verbatim>\<open>fetchTasksFromApi\<close>.\<close>

fun mapItems :: "env \<Rightarrow> remote_item list \<Rightarrow> world \<Rightarrow> task list \<times> world" where
  "mapItems e [] w = ([], w)"
| "mapItems e (it # its) w =
     (let (i, w1) = (if r_id it \<noteq> 0 then (show_nat (r_id it), w) else generateUniqueId e w);
          t = no_fields\<lparr>tid := Some i, title := Some (r_title it),
                description := Some (''User ID: '' @ show_nat (r_userId it) @ '' (Completed: ''
                   @ (if r_completed it then ''true'' else ''false'') @ '')''),
                priority := Some (if r_completed it then ''low'' else ''medium''),
                source := Some ''api'', createdAt := Some (clock w1)\<rparr>;
          (ts, w2) = mapItems e its w1
      in (t # ts, w2))"

text \<open>The value of \<^verbatim>\<open>expiredCacheData && expiredCacheData.data\<close> when it is truthy.\<close>

definition stale_data :: "jval \<Rightarrow> jval option" where
  "stale_data v = (case v of Envelope d t x \<Rightarrow> if truthy d then Some d else None | _ \<Rightarrow> None)"

text \<open>The \<^verbatim>\<open>catch\<close> block of \<^verbatim>\<open>fetchTasksFromApi\<close>.\<close>

definition fetchFailed :: "string \<Rightarrow> world \<Rightarrow> jval response \<times> world" where
  "fetchFailed message w =
     (case stale_data (ss_get (''CACHE_'' @ ''tasks_list'') w) of
        Some d \<Rightarrow> (\<lparr>success = True, data = Some d, res_source = Some ''cache'',
                    res_offline = Some True, error = None\<rparr>, w)
      | None \<Rightarrow> (\<lparr>success = False, data = None, res_source = None,
                    res_offline = None, error = Some message\<rparr>, w))"

text \<open>
  A body that is not an array makes \<^verbatim>\<open>response.map\<close> raise inside the \<^verbatim>\<open>try\<close>,
  which lands in the same \<^verbatim>\<open>catch\<close> as a failed call.
\<close>

definition fetchTasksFromApi :: "env \<Rightarrow> bool \<Rightarrow> world \<Rightarrow> jval response \<times> world" where
  "fetchTasksFromApi e forceRefresh w =
     (let cacheKey = ''tasks_list'';
          (cachedData, w1) =
             (if \<not> forceRefresh then ss_getCached cacheKey SHORT w else (Null, w))
      in if truthy cachedData then
           (\<lparr>success = True, data = Some cachedData, res_source = Some ''cache'',
             res_offline = Some False, error = None\<rparr>, w1)
         else if \<not> isOnline w1 then
           (case stale_data (ss_get (''CACHE_'' @ cacheKey) w1) of
              Some d \<Rightarrow> (\<lparr>success = True, data = Some d, res_source = Some ''cache'',
                          res_offline = Some True, error = None\<rparr>, w1)
            | None \<Rightarrow> (\<lparr>success = False, data = None, res_source = None,
                          res_offline = Some True,
                          error = Some ''Offline and no cached data available.''\<rparr>, w1))
         else
           (case apiCall e ''/todos'' ''GET'' None w1 of
              (Inr (Items items), w2) \<Rightarrow>
                (let (tasks, w3) = mapItems e items w2;
                     w4 = snd (ss_setCached cacheKey (Tasks tasks) SHORT w3)
                 in (\<lparr>success = True, data = Some (Tasks tasks), res_source = Some ''api'',
                      res_offline = Some False, error = None\<rparr>, w4))
            | (Inr (Object obj), w2) \<Rightarrow> fetchFailed ''response.map is not a function'' w2
            | (Inl message, w2) \<Rightarrow> fetchFailed message w2))"

subsection \<open>Task operations\<close>

text \<open>
  The \<^verbatim>\<open>Map\<close> that removes duplicate ids: an association list in insertion order;
  \<^verbatim>\<open>set\<close> on a key that is present replaces the value in place.
\<close>

definition keep_unique ::
  "(string option \<times> task) list \<Rightarrow> task \<Rightarrow> (string option \<times> task) list" where
  "keep_unique m t =
     (if map_of m (tid t) = None \<or> source t = Some ''api'' \<or> source t = Some ''cache''
      then AList.update (tid t) t m else m)"

text \<open>Steps 3 and 4 of \<^verbatim>\<open>getTasks\<close>: combine, keep one task per id, sort.\<close>

definition mergeTasks :: "task list \<Rightarrow> task list \<Rightarrow> task list" where
  "mergeTasks finalData markedLocalTasks =
     (let combinedTasks = finalData @ markedLocalTasks;
          uniqueTasksMap = foldl keep_unique [] combinedTasks;
          uniqueTasks = map snd uniqueTasksMap
      in sort_with byCreatedAtDesc uniqueTasks)"

definition markLocal :: "task list \<Rightarrow> task list" where
  "markLocal permanentLocalTasks =
     map (\<lambda>t. t\<lparr>source := Some ''local_permanent''\<rparr>) permanentLocalTasks"

definition getTasks :: "env \<Rightarrow> bool \<Rightarrow> world \<Rightarrow> (task list response \<times> world) option" where
  "getTasks e forceRefresh w =
     (let (apiResult, w1) = fetchTasksFromApi e forceRefresh w;
          (finalData, finalSource, offlineMode) =
             (if success apiResult
              then (data apiResult, res_source apiResult, res_offline apiResult)
              else (Some (Tasks []), Some ''api'', Some False))
      in do {
        permanentLocalTasks \<leftarrow> ss_getTasks w1;
        remoteTasks \<leftarrow> Option.bind finalData as_tasks;
        let uniqueTasks = mergeTasks remoteTasks (markLocal permanentLocalTasks);
        Some (\<lparr>success = True, data = Some uniqueTasks, res_source = finalSource,
               res_offline = offlineMode, error = None\<rparr>, w1)
      })"

definition addTask :: "env \<Rightarrow> task \<Rightarrow> world \<Rightarrow> (task response \<times> world) option" where
  "addTask e taskData w =
     (let (i, w1) = generateUniqueId e w;
          newTask = taskData\<lparr>tid := Some i, createdAt := Some (clock w1),
                      offline := Some True, source := Some ''local_permanent'',
                      synced := Some False\<rparr>
      in do {
        (saved, w2) \<leftarrow> ss_saveTask newTask w1;
        let w3 = snd (ss_remove ''CACHE_tasks_list'' w2);
        Some (\<lparr>success = True, data = Some newTask, res_source = Some ''local_permanent'',
               res_offline = Some True, error = None\<rparr>, w3)
      })"

definition deleteTask ::
  "env \<Rightarrow> string option \<Rightarrow> world \<Rightarrow> (reply response \<times> world) option" where
  "deleteTask e i w = do {
     found \<leftarrow> ss_getTaskById i w;
     if found \<noteq> None then do {
       (done, w1) \<leftarrow> ss_deleteTask i w;
       let w2 = snd (ss_remove ''CACHE_tasks_list'' w1);
       Some (\<lparr>success = True, data = None, res_source = Some ''local_permanent'',
              res_offline = Some True, error = None\<rparr>, w2)
     }
     else if isOnline w then
       (case apiCall e (''/todos'' @ ''/'' @ show_id i) ''DELETE'' None w of
          (Inr r, w1) \<Rightarrow>
            (let w2 = snd (ss_remove ''CACHE_tasks_list'' w1)
             in Some (\<lparr>success = True, data = None, res_source = None,
                       res_offline = Some (\<not> isOnline w2), error = None\<rparr>, w2))
        | (Inl message, w1) \<Rightarrow> do {
            w2 \<leftarrow> addToOfflineChangesQueue e ''delete'' (no_fields\<lparr>tid := i\<rparr>) w1;
            let w3 = snd (ss_remove ''CACHE_tasks_list'' w2);
            Some (\<lparr>success = True, data = None, res_source = None,
                   res_offline = Some True, error = None\<rparr>, w3)
          })
     else do {
       w1 \<leftarrow> addToOfflineChangesQueue e ''delete'' (no_fields\<lparr>tid := i\<rparr>) w;
       let w2 = snd (ss_remove ''CACHE_tasks_list'' w1);
       Some (\<lparr>success = True, data = None, res_source = None,
              res_offline = Some (\<not> isOnline w2), error = None\<rparr>, w2)
     }
   }"

definition updateTask ::
  "env \<Rightarrow> string option \<Rightarrow> task \<Rightarrow> world \<Rightarrow> (reply response \<times> world) option" where
  "updateTask e i updates w =
     (if isOnline w then
        (case apiCall e (''/todos'' @ ''/'' @ show_id i) ''PUT'' (Some updates) w of
           (Inr r, w1) \<Rightarrow>
             Some (\<lparr>success = True, data = Some r, res_source = None,
                    res_offline = Some False, error = None\<rparr>, w1)
         | (Inl message, w1) \<Rightarrow> do {
             w2 \<leftarrow> addToOfflineChangesQueue e ''update'' (spread (no_fields\<lparr>tid := i\<rparr>) updates) w1;
             Some (\<lparr>success = True, data = None, res_source = None,
                    res_offline = Some True, error = None\<rparr>, w2)
           })
      else do {
        w1 \<leftarrow> addToOfflineChangesQueue e ''update'' (spread (no_fields\<lparr>tid := i\<rparr>) updates) w;
        Some (\<lparr>success = True, data = None, res_source = None,
               res_offline = Some True, error = None\<rparr>, w1)
      })"

subsection \<open>Draining the offline queue\<close>

text \<open>
  One pass of the loop of \<^verbatim>\<open>syncOfflineChanges\<close>. The \<^verbatim>\<open>catch\<close> of the loop has no
  branch here: \<^verbatim>\<open>updateTask\<close> and \<^verbatim>\<open>deleteTask\<close> catch the errors of \<^verbatim>\<open>apiCall\<close>
  themselves, so on a store inside the model nothing reaches it.
\<close>

definition replayChange :: "env \<Rightarrow> change \<Rightarrow> world \<Rightarrow> (sync_entry \<times> world) option" where
  "replayChange e c w =
     (if action c = ''create'' then do {
        (r, w1) \<leftarrow> updateTask e (tid (task c)) (task c) w;
        Some (\<lparr>taskId = tid (task c), result = r, entry_action = ''create''\<rparr>, w1)
      }
      else if action c = ''delete'' then do {
        (r, w1) \<leftarrow> deleteTask e (tid (task c)) w;
        Some (\<lparr>taskId = tid (task c),
               result = \<lparr>success = True, data = None, res_source = None,
                          res_offline = None, error = None\<rparr>,
               entry_action = ''delete''\<rparr>, w1)
      }
      else do {
        (r, w1) \<leftarrow> updateTask e (tid (task c)) (task c) w;
        Some (\<lparr>taskId = tid (task c), result = r, entry_action = ''update''\<rparr>, w1)
      })"

fun replayAll :: "env \<Rightarrow> change list \<Rightarrow> world \<Rightarrow> (sync_entry list \<times> world) option" where
  "replayAll e [] w = Some ([], w)"
| "replayAll e (c # cs) w = do {
     (entry, w1) \<leftarrow> replayChange e c w;
     (entries, w2) \<leftarrow> replayAll e cs w1;
     Some (entry # entries, w2)
   }"

definition syncOfflineChanges :: "env \<Rightarrow> world \<Rightarrow> (sync_response \<times> world) option" where
  "syncOfflineChanges e w =
     (if \<not> isOnline w then
        Some (\<lparr>sync_success = False, sync_error = Some ''Cannot sync: Device is offline.'',
               syncResults = None\<rparr>, w)
      else do {
        changes \<leftarrow> ss_getOfflineChanges w;
        if length changes = 0 then
          Some (\<lparr>sync_success = True, sync_error = None, syncResults = Some []\<rparr>, w)
        else do {
          (results, w1) \<leftarrow> replayAll e changes w;
          let w2 = snd (ss_clearOfflineChanges w1);
          let w3 = snd (ss_remove ''CACHE_tasks_list'' w2);
          Some (\<lparr>sync_success = True, sync_error = None, syncResults = Some results\<rparr>, w3)
        }
      })"

definition clearAllCaches :: "world \<Rightarrow> bool \<times> world" where
  "clearAllCaches w = (let (done, w1) = ss_clearCache w in (True, w1))"

section \<open>Auxiliary notions\<close>

text \<open>
  The invariant of the duplicate-removing map: keys are distinct and each value sits
  under its own id.
\<close>

definition keyed :: "(string option \<times> task) list \<Rightarrow> bool" where
  "keyed m = (distinct (map fst m) \<and> (\<forall>k t. map_of m k = Some t \<longrightarrow> tid t = k))"

text \<open>The replace-or-append step of \<^verbatim>\<open>saveTask\<close>.\<close>

definition upsert :: "task \<Rightarrow> task list \<Rightarrow> task list" where
  "upsert t L = (case findIndex (\<lambda>x. tid x = tid t) L of Some i \<Rightarrow> L[i := t] | None \<Rightarrow> L @ [t])"

text \<open>
  The remote or cached tasks that \<^verbatim>\<open>getTasks\<close> takes from the result of
  \<^verbatim>\<open>fetchTasksFromApi\<close>: its data when it succeeded, no task otherwise.
\<close>

definition fetched_tasks :: "jval response \<Rightarrow> task list option" where
  "fetched_tasks fr = Option.bind (if success fr then data fr else Some (Tasks [])) as_tasks"

text \<open>The result of a cache hit and of a failed fetch.\<close>

definition cache_hit :: "jval \<Rightarrow> jval response" where
  "cache_hit d = \<lparr>success = True, data = Some d, res_source = Some ''cache'',
     res_offline = Some False, error = None\<rparr>"

definition fetch_error :: "string \<Rightarrow> jval response" where
  "fetch_error m = \<lparr>success = False, data = None, res_source = None, res_offline = None,
     error = Some m\<rparr>"

text \<open>
  The change that \<^verbatim>\<open>addToOfflineChangesQueue\<close> builds, the gateway request that
  replaying a change makes, and the action under which the replay is reported.
\<close>

definition enqueued :: "env \<Rightarrow> string \<Rightarrow> task \<Rightarrow> world \<Rightarrow> change" where
  "enqueued e act t w =
     \<lparr>action = act,
      task = t\<lparr>tid := (if truthy_id (tid t) then tid t else Some (fst (generateUniqueId e w))),
               synced := Some False\<rparr>,
      timestamp = clock w\<rparr>"

definition put_request :: "string option \<Rightarrow> task \<Rightarrow> request" where
  "put_request i u = \<lparr>endpoint = ''/todos/'' @ show_id i, httpMethod = ''PUT'', body = Some u\<rparr>"

definition delete_request :: "string option \<Rightarrow> request" where
  "delete_request i = \<lparr>endpoint = ''/todos/'' @ show_id i, httpMethod = ''DELETE'', body = None\<rparr>"

definition request_of :: "change \<Rightarrow> request" where
  "request_of c =
     (if action c = ''delete'' then delete_request (tid (task c))
      else put_request (tid (task c)) (task c))"

definition replayed_as :: "string \<Rightarrow> string" where
  "replayed_as a =
     (if a = ''create'' then ''create'' else if a = ''delete'' then ''delete'' else ''update'')"

text \<open>The two results of \<^verbatim>\<open>syncOfflineChanges\<close>.\<close>

definition sync_done :: "sync_entry list \<Rightarrow> sync_response" where
  "sync_done rs = \<lparr>sync_success = True, sync_error = None, syncResults = Some rs\<rparr>"

definition sync_refused :: sync_response where
  "sync_refused = \<lparr>sync_success = False, sync_error = Some ''Cannot sync: Device is offline.'',
     syncResults = None\<rparr>"

text \<open>
  A task with a creation date; \<open>not_older a b\<close> says that both have one and that \<open>a\<close> was
  created at the instant of \<open>b\<close> or later. A list is \<open>newest_first\<close> when each of its tasks
  is not older than every task after it: descending order of creation date.
\<close>

definition dated :: "task \<Rightarrow> bool" where
  "dated t = (createdAt t \<noteq> None)"

definition not_older :: "task \<Rightarrow> task \<Rightarrow> bool" where
  "not_older a b = (case (createdAt a, createdAt b) of (Some x, Some y) \<Rightarrow> y \<le> x | _ \<Rightarrow> False)"

definition newest_first :: "task list \<Rightarrow> bool" where
  "newest_first ts = sorted_wrt not_older ts"

text \<open>
  The cache entries of the tasks collection that \<^verbatim>\<open>getTasks\<close> can work with: no entry,
  text that does not parse, a value that is not an envelope, and an envelope whose data
  is falsy or an array of tasks. What is left is an envelope around a truthy value that
  is not an array of tasks, which \<^verbatim>\<open>fetchTasksFromApi\<close> hands to \<^verbatim>\<open>getTasks\<close> as
  \<^verbatim>\<open>finalData\<close>.
\<close>

definition cache_readable :: "world \<Rightarrow> bool" where
  "cache_readable w =
     (case storage w ''CACHE_tasks_list'' of
        Some (Json (Envelope d ts x)) \<Rightarrow> \<not> truthy d \<or> as_tasks d \<noteq> None
      | _ \<Rightarrow> True)"

section \<open>Sample worlds\<close>

text \<open>
  Concrete tasks, stores and gateways at which the theorems below are exercised: a remote
  system that fails every call and one that serves; a store with a valid cache entry and
  two permanent tasks; an offline device; a store with one saved task, and the same with
  a cache entry that does not parse; a queue of three changes; a store whose cached
  record is older than its permanent task; an offline device with two permanent tasks;
  a repository before and after \<open>local1\<close> is saved, and the task that the serving remote
  system yields; a store whose cache entry wraps an object.
\<close>

definition sample_task :: "string \<Rightarrow> int \<Rightarrow> task" where
  "sample_task i c = no_fields\<lparr>tid := Some i, title := Some ''Buy milk'',
     priority := Some ''low'', createdAt := Some c\<rparr>"

definition world0 :: world where
  "world0 = \<lparr>storage = Map.empty, isOnline = True, clock = 1000, requests = [], draws = 0\<rparr>"

definition failing :: env where
  "failing = \<lparr>remote = (\<lambda>n r. Inl ''Network request failed''), random = (\<lambda>n. 7)\<rparr>"

definition serving :: env where
  "serving = \<lparr>remote = (\<lambda>n r. if httpMethod r = ''GET''
        then Inr (Items [\<lparr>r_id = 1, r_title = ''delectus'', r_userId = 1, r_completed = False\<rparr>])
        else Inr (Object no_fields)),
     random = (\<lambda>n. 7)\<rparr>"

definition remote1 :: task where
  "remote1 = (sample_task ''1'' 30)\<lparr>source := Some ''api''\<rparr>"

definition local1 :: task where
  "local1 = (sample_task ''1'' 10)\<lparr>title := Some ''Stale copy''\<rparr>"

definition local2 :: task where
  "local2 = (sample_task ''local-2'' 20)\<lparr>source := Some ''local_permanent''\<rparr>"

definition cached_world :: world where
  "cached_world = world0\<lparr>storage :=
     [''CACHE_tasks_list'' \<mapsto> Json (Envelope (Tasks [remote1]) 900 SHORT),
      ''TASKS'' \<mapsto> Json (Tasks [local2, local1])]\<rparr>"

definition offline_world :: world where
  "offline_world = world0\<lparr>isOnline := False\<rparr>"

definition one_task_world :: world where
  "one_task_world = ss_saveTasks [sample_task ''1'' 5] world0"

definition corrupted_world :: world where
  "corrupted_world =
     one_task_world\<lparr>storage := (storage one_task_world)(''CACHE_tasks_list'' \<mapsto> Text ''{not json'')\<rparr>"

definition after_failed_fetch :: world where
  "after_failed_fetch = one_task_world\<lparr>
     storage := (storage one_task_world)(''CACHE_tasks_list'' := None),
     requests := [\<lparr>endpoint = ''/todos'', httpMethod = ''GET'', body = None\<rparr>]\<rparr>"

definition queued_change :: "string \<Rightarrow> string \<Rightarrow> change" where
  "queued_change act i =
     \<lparr>action = act, task = no_fields\<lparr>tid := Some i, synced := Some False\<rparr>, timestamp = 1000\<rparr>"

definition queue_abc :: "change list" where
  "queue_abc = [queued_change ''update'' ''1'', queued_change ''delete'' ''2'',
     queued_change ''create'' ''3'']"

definition abc_world :: world where
  "abc_world = world0\<lparr>storage := [''OFFLINE_CHANGES'' \<mapsto> Json (Changes queue_abc)]\<rparr>"

definition ab_world :: world where
  "ab_world = world0\<lparr>storage := [''OFFLINE_CHANGES'' \<mapsto> Json (Changes (take 2 queue_abc))],
     isOnline := False\<rparr>"

definition older_remote :: task where
  "older_remote = (sample_task ''7'' 5)\<lparr>source := Some ''api''\<rparr>"

definition old_cache_world :: world where
  "old_cache_world = world0\<lparr>storage :=
     [''CACHE_tasks_list'' \<mapsto> Json (Envelope (Tasks [older_remote]) 900 SHORT),
      ''TASKS'' \<mapsto> Json (Tasks [local2])]\<rparr>"

definition offline_tasks_world :: world where
  "offline_tasks_world = offline_world\<lparr>storage :=
     [''TASKS'' \<mapsto> Json (Tasks [local1, local2])]\<rparr>"

definition before_save :: world where
  "before_save = world0\<lparr>storage := [''TASKS'' \<mapsto> Json (Tasks [local2])]\<rparr>"

definition after_save :: world where
  "after_save = ss_saveTasks [local2, local1] before_save"

definition served1 :: task where
  "served1 = no_fields\<lparr>tid := Some ''1'', title := Some ''delectus'',
     description := Some ''User ID: 1 (Completed: false)'', priority := Some ''medium'',
     source := Some ''api'', createdAt := Some 1000\<rparr>"

definition object_cache_world :: world where
  "object_cache_world = world0\<lparr>storage :=
     [''CACHE_tasks_list'' \<mapsto> Json (Envelope (Envelope Null 0 0) 900 SHORT),
      ''TASKS'' \<mapsto> Json (Tasks [local2])]\<rparr>"

section \<open>Sorting and merging\<close>

lemma set_insert_sorted: "set (insert_sorted c x ys) = insert x (set ys)"
  by (induction ys) auto

lemma sort_with_Cons: "sort_with c (x # xs) = insert_sorted c x (sort_with c xs)"
  by (simp add: sort_with_def)

lemma set_sort_with: "set (sort_with c xs) = set xs"
  by (induction xs) (simp_all add: sort_with_Cons set_insert_sorted, simp add: sort_with_def)

lemma distinct_map_insert_sorted:
  "distinct (map f (insert_sorted c x ys)) = (f x \<notin> f ` set ys \<and> distinct (map f ys))"
  by (induction ys) (auto simp: set_insert_sorted)

lemma distinct_map_sort_with: "distinct (map f (sort_with c xs)) = distinct (map f xs)"
proof (induction xs)
  case Nil
  show ?case by (simp add: sort_with_def)
next
  case (Cons x xs)
  then show ?case
    by (simp add: sort_with_Cons distinct_map_insert_sorted set_sort_with)
qed


lemma map_of_keep_unique:
  "map_of (keep_unique m t) =
     (if map_of m (tid t) = None \<or> source t = Some ''api'' \<or> source t = Some ''cache''
      then (map_of m)(tid t \<mapsto> t) else map_of m)"
  by (auto simp: keep_unique_def update_conv')

lemma keyed_keep_unique: "keyed m \<Longrightarrow> keyed (keep_unique m t)"
proof -
  assume k: "keyed m"
  then have "distinct (map fst (keep_unique m t))"
    by (simp add: keyed_def keep_unique_def distinct_update)
  moreover from k have "\<forall>k v. map_of (keep_unique m t) k = Some v \<longrightarrow> tid v = k"
    by (auto simp: keyed_def map_of_keep_unique split: if_splits)
  ultimately show ?thesis by (simp add: keyed_def)
qed

lemma keyed_ids: "keyed m \<Longrightarrow> map tid (map snd m) = map fst m"
  by (auto simp: keyed_def)

lemma keyed_foldl: "keyed m \<Longrightarrow> keyed (foldl keep_unique m ts)"
  by (induction ts arbitrary: m) (simp_all add: keyed_keep_unique)

lemma foldl_keeps_entry:
  "\<forall>t \<in> set ts. source t \<noteq> Some ''api'' \<and> source t \<noteq> Some ''cache'' \<Longrightarrow>
   map_of m k = Some v \<Longrightarrow> map_of (foldl keep_unique m ts) k = Some v"
proof (induction ts arbitrary: m)
  case Nil
  then show ?case by simp
next
  case (Cons t ts)
  from Cons.prems have "map_of (keep_unique m t) k = Some v"
    by (auto simp: map_of_keep_unique)
  with Cons show ?case by simp
qed

lemma foldl_entry_origin:
  "map_of (foldl keep_unique m ts) k = Some v \<Longrightarrow>
   map_of m k = Some v \<or> (v \<in> set ts \<and> tid v = k)"
proof (induction ts arbitrary: m)
  case Nil
  then show ?case by simp
next
  case (Cons t ts)
  from Cons.IH [of "keep_unique m t"] Cons.prems
  have "map_of (keep_unique m t) k = Some v \<or> (v \<in> set ts \<and> tid v = k)"
    by simp
  then show ?case
    by (auto simp: map_of_keep_unique split: if_splits)
qed

lemma foldl_keys:
  "dom (map_of (foldl keep_unique m ts)) = dom (map_of m) \<union> tid ` set ts"
proof (induction ts arbitrary: m)
  case Nil
  then show ?case by simp
next
  case (Cons t ts)
  have "dom (map_of (keep_unique m t)) = insert (tid t) (dom (map_of m))"
    by (auto simp: map_of_keep_unique split: if_splits)
  with Cons.IH [of "keep_unique m t"] show ?case by auto
qed

lemma foldl_first_local:
  "distinct (map tid ts) \<Longrightarrow>
   \<forall>t \<in> set ts. source t \<noteq> Some ''api'' \<and> source t \<noteq> Some ''cache'' \<Longrightarrow>
   t \<in> set ts \<Longrightarrow> map_of m (tid t) = None \<Longrightarrow>
   map_of (foldl keep_unique m ts) (tid t) = Some t"
proof (induction ts arbitrary: m)
  case Nil
  then show ?case by simp
next
  case (Cons x xs)
  show ?case
  proof (cases "x = t")
    case True
    with Cons.prems have "map_of (keep_unique m x) (tid t) = Some t"
      by (simp add: map_of_keep_unique)
    with Cons.prems show ?thesis
      by (simp add: foldl_keeps_entry)
  next
    case False
    with Cons.prems have "t \<in> set xs" and "tid x \<noteq> tid t"
      by auto
    with Cons.prems have "map_of (keep_unique m x) (tid t) = None"
      by (simp add: map_of_keep_unique)
    with Cons.IH [of "keep_unique m x"] Cons.prems \<open>t \<in> set xs\<close> show ?thesis
      by simp
  qed
qed

lemma keyed_Nil: "keyed []"
  by (simp add: keyed_def)


lemma mergeTasks_unfold:
  "mergeTasks R L = sort_with byCreatedAtDesc (map snd (foldl keep_unique [] (R @ L)))"
  by (simp add: mergeTasks_def Let_def)

lemma keyed_merge: "keyed (foldl keep_unique [] (R @ L))"
  by (rule keyed_foldl [OF keyed_Nil])

lemma mergeTasks_distinct: "distinct (map tid (mergeTasks R L))"
proof -
  have "map tid (map snd (foldl keep_unique [] (R @ L))) = map fst (foldl keep_unique [] (R @ L))"
    by (rule keyed_ids [OF keyed_merge])
  moreover have "distinct (map fst (foldl keep_unique [] (R @ L)))"
    using keyed_merge [of R L] by (simp only: keyed_def)
  ultimately have "distinct (map tid (map snd (foldl keep_unique [] (R @ L))))"
    by (simp only:)
  then show ?thesis
    by (simp only: mergeTasks_unfold distinct_map_sort_with)
qed


lemma keyed_lookup: "keyed m \<Longrightarrow> (t \<in> snd ` set m) = (map_of m (tid t) = Some t)"
proof
  assume k: "keyed m" and "t \<in> snd ` set m"
  then obtain a where a: "(a, t) \<in> set m" by force
  with k have "map_of m a = Some t" by (simp add: keyed_def)
  moreover with k have "tid t = a" by (simp add: keyed_def)
  ultimately show "map_of m (tid t) = Some t" by simp
next
  assume "map_of m (tid t) = Some t"
  then have "(tid t, t) \<in> set m" by (rule map_of_SomeD)
  then show "t \<in> snd ` set m" by force
qed

lemma set_mergeTasks:
  "(t \<in> set (mergeTasks R L)) = (map_of (foldl keep_unique [] (R @ L)) (tid t) = Some t)"
  by (simp only: mergeTasks_unfold set_sort_with set_map keyed_lookup [OF keyed_merge])

lemma mergeTasks_ids: "tid ` set (mergeTasks R L) = tid ` set R \<union> tid ` set L"
proof -
  have "tid ` set (mergeTasks R L) = set (map tid (map snd (foldl keep_unique [] (R @ L))))"
    by (simp only: mergeTasks_unfold set_sort_with set_map)
  also have "\<dots> = fst ` set (foldl keep_unique [] (R @ L))"
    by (simp only: keyed_ids [OF keyed_merge] set_map)
  also have "\<dots> = dom (map_of (foldl keep_unique [] (R @ L)))"
    by (simp only: dom_map_of_conv_image_fst)
  also have "\<dots> = tid ` set R \<union> tid ` set L"
    by (simp add: foldl_keys image_Un)
  finally show ?thesis .
qed

lemma set_mergeTasks_subset: "set (mergeTasks R L) \<subseteq> set R \<union> set L"
proof
  fix t
  assume "t \<in> set (mergeTasks R L)"
  then have "map_of (foldl keep_unique [] (R @ L)) (tid t) = Some t"
    by (simp only: set_mergeTasks)
  from foldl_entry_origin [OF this] show "t \<in> set R \<union> set L"
    by simp
qed

lemma mergeTasks_remote_wins:
  assumes loc: "\<forall>t \<in> set L. source t \<noteq> Some ''api'' \<and> source t \<noteq> Some ''cache''"
    and t: "t \<in> set (mergeTasks R L)" and r: "tid t \<in> tid ` set R"
  shows "t \<in> set R"
proof -
  from r have "tid t \<in> dom (map_of (foldl keep_unique [] R))"
    by (simp add: foldl_keys)
  then obtain v where v: "map_of (foldl keep_unique [] R) (tid t) = Some v"
    by blast
  from foldl_entry_origin [OF v] have "v \<in> set R"
    by simp
  from foldl_keeps_entry [OF loc v]
  have "map_of (foldl keep_unique [] (R @ L)) (tid t) = Some v"
    by simp
  with t have "t = v"
    by (simp add: set_mergeTasks)
  with \<open>v \<in> set R\<close> show ?thesis by simp
qed

lemma mergeTasks_local_kept:
  assumes loc: "\<forall>t \<in> set L. source t \<noteq> Some ''api'' \<and> source t \<noteq> Some ''cache''"
    and d: "distinct (map tid L)" and t: "t \<in> set L" and r: "tid t \<notin> tid ` set R"
  shows "t \<in> set (mergeTasks R L)"
proof -
  from r have "tid t \<notin> dom (map_of (foldl keep_unique [] R))"
    by (simp add: foldl_keys)
  then have "map_of (foldl keep_unique [] R) (tid t) = None"
    by blast
  from foldl_first_local [OF d loc t this]
  show ?thesis
    by (simp add: set_mergeTasks)
qed

lemma not_older_trans: "not_older a b \<Longrightarrow> not_older b c \<Longrightarrow> not_older a c"
  by (auto simp: not_older_def split: option.splits)

lemma insert_sorted_newest_first:
  assumes "dated x" and "list_all dated ys" and "sorted_wrt not_older ys"
  shows "sorted_wrt not_older (insert_sorted byCreatedAtDesc x ys)"
  using assms
proof (induction ys)
  case Nil
  then show ?case by simp
next
  case (Cons y ys)
  from Cons.prems obtain a b where a: "createdAt x = Some a" and b: "createdAt y = Some b"
    by (auto simp: dated_def)
  show ?case
  proof (cases "0 < byCreatedAtDesc x y")
    case True
    with a b have "not_older y x"
      by (simp add: byCreatedAtDesc_def not_older_def)
    moreover from Cons have "sorted_wrt not_older (insert_sorted byCreatedAtDesc x ys)"
      by simp
    ultimately show ?thesis using True Cons.prems
      by (auto simp: set_insert_sorted)
  next
    case False
    with a b have xy: "not_older x y"
      by (simp add: byCreatedAtDesc_def not_older_def)
    have "\<forall>z \<in> set ys. not_older x z"
    proof
      fix z
      assume "z \<in> set ys"
      with Cons.prems have "not_older y z" by simp
      with xy show "not_older x z" by (rule not_older_trans)
    qed
    with False xy Cons.prems show ?thesis
      by simp
  qed
qed

lemma list_all_sort_with: "list_all P (sort_with c xs) = list_all P xs"
  by (simp add: list_all_iff set_sort_with)

lemma sort_with_newest_first:
  "list_all dated xs \<Longrightarrow> newest_first (sort_with byCreatedAtDesc xs)"
proof (induction xs)
  case Nil
  show ?case by (simp add: newest_first_def sort_with_def)
next
  case (Cons x xs)
  then have "dated x" and "list_all dated (sort_with byCreatedAtDesc xs)"
    and "sorted_wrt not_older (sort_with byCreatedAtDesc xs)"
    by (simp_all add: list_all_sort_with newest_first_def)
  then show ?case
    by (simp add: newest_first_def sort_with_Cons insert_sorted_newest_first)
qed

lemma foldl_other_ids:
  "k \<notin> tid ` set ts \<Longrightarrow> map_of (foldl keep_unique m ts) k = map_of m k"
proof (induction ts arbitrary: m)
  case Nil
  then show ?case by simp
next
  case (Cons t ts)
  then have "map_of (keep_unique m t) k = map_of m k"
    by (auto simp: map_of_keep_unique)
  with Cons show ?case by simp
qed

lemma foldl_distinct_kept:
  "distinct (map tid ts) \<Longrightarrow> t \<in> set ts \<Longrightarrow> map_of m (tid t) = None \<Longrightarrow>
   map_of (foldl keep_unique m ts) (tid t) = Some t"
proof (induction ts arbitrary: m)
  case Nil
  then show ?case by simp
next
  case (Cons x xs)
  show ?case
  proof (cases "x = t")
    case True
    with Cons.prems have "map_of (keep_unique m x) (tid t) = Some t"
      by (simp add: map_of_keep_unique)
    moreover from True Cons.prems have "tid t \<notin> tid ` set xs"
      by auto
    ultimately show ?thesis
      by (simp add: foldl_other_ids)
  next
    case False
    with Cons.prems have "t \<in> set xs" and "tid x \<noteq> tid t"
      by auto
    with Cons.prems have "map_of (keep_unique m x) (tid t) = None"
      by (simp add: map_of_keep_unique)
    with Cons.IH [of "keep_unique m x"] Cons.prems \<open>t \<in> set xs\<close> show ?thesis
      by simp
  qed
qed

lemma mergeTasks_remote_kept:
  assumes loc: "\<forall>t \<in> set L. source t \<noteq> Some ''api'' \<and> source t \<noteq> Some ''cache''"
    and d: "distinct (map tid R)" and t: "t \<in> set R"
  shows "t \<in> set (mergeTasks R L)"
proof -
  from foldl_distinct_kept [OF d t, of "[]"]
  have "map_of (foldl keep_unique [] R) (tid t) = Some t"
    by simp
  from foldl_keeps_entry [OF loc this]
  show ?thesis
    by (simp add: set_mergeTasks)
qed

lemma mergeTasks_newest_first:
  "list_all dated R \<Longrightarrow> list_all dated L \<Longrightarrow> newest_first (mergeTasks R L)"
proof -
  assume "list_all dated R" and "list_all dated L"
  then have "\<forall>t \<in> set R \<union> set L. dated t"
    by (auto simp: list_all_iff)
  moreover have "set (map snd (foldl keep_unique [] (R @ L))) \<subseteq> set R \<union> set L"
    using set_mergeTasks_subset [of R L] by (simp only: mergeTasks_unfold set_sort_with)
  ultimately have "list_all dated (map snd (foldl keep_unique [] (R @ L)))"
    unfolding list_all_iff by blast
  then show ?thesis
    by (simp only: mergeTasks_unfold sort_with_newest_first)
qed

section \<open>Cache expiration\<close>

lemma getCached_after_setCached:
  "ss_getCached k w' (advance d (snd (ss_setCached k v w s))) =
     (if d < w' then (v, advance d (snd (ss_setCached k v w s)))
      else (Null, snd (ss_remove (CACHE_PREFIX @ k) (advance d (snd (ss_setCached k v w s))))))"
  by (simp add: ss_getCached_def ss_setCached_def advance_def Let_def)

text \<open>
  C3. A value written with \<open>setCached k v w\<close>, \<open>w > 0\<close>, is returned by \<open>getCached k w\<close>
  at once, and as long as fewer than \<open>w\<close> milliseconds have passed. Once more than \<open>w\<close>
  milliseconds have passed, \<open>getCached k w\<close> returns \<^verbatim>\<open>null\<close> and removes the entry:
  the key is gone from the store and a raw read of it gives \<^verbatim>\<open>null\<close>.
\<close>

theorem cache_expiration:
  "0 < w \<Longrightarrow>
     fst (ss_getCached k w (snd (ss_setCached k v w s))) = v
   \<and> (0 \<le> d \<and> d < w \<longrightarrow>
        fst (ss_getCached k w (advance d (snd (ss_setCached k v w s)))) = v)
   \<and> (w < d' \<longrightarrow>
        fst (ss_getCached k w (advance d' (snd (ss_setCached k v w s)))) = Null
      \<and> storage (snd (ss_getCached k w (advance d' (snd (ss_setCached k v w s)))))
          (CACHE_PREFIX @ k) = None
      \<and> ss_get (CACHE_PREFIX @ k)
          (snd (ss_getCached k w (advance d' (snd (ss_setCached k v w s))))) = Null)"
proof -
  assume w: "0 < w"
  have "advance 0 (snd (ss_setCached k v w s)) = snd (ss_setCached k v w s)"
    by (simp add: advance_def)
  with w getCached_after_setCached [of k w 0 v w s]
  have now: "fst (ss_getCached k w (snd (ss_setCached k v w s))) = v"
    by simp
  have hit: "0 \<le> d \<and> d < w \<longrightarrow>
        fst (ss_getCached k w (advance d (snd (ss_setCached k v w s)))) = v"
    by (simp add: getCached_after_setCached)
  have miss: "w < d' \<longrightarrow>
        fst (ss_getCached k w (advance d' (snd (ss_setCached k v w s)))) = Null
      \<and> storage (snd (ss_getCached k w (advance d' (snd (ss_setCached k v w s)))))
          (CACHE_PREFIX @ k) = None
      \<and> ss_get (CACHE_PREFIX @ k)
          (snd (ss_getCached k w (advance d' (snd (ss_setCached k v w s))))) = Null"
    by (simp add: getCached_after_setCached ss_remove_def ss_get_def)
  from now hit miss show ?thesis by blast
qed

theorem cache_expiration_witness:
  "0 < SHORT
   \<and> fst (ss_getCached ''tasks_list'' SHORT
        (snd (ss_setCached ''tasks_list'' (Tasks [sample_task ''1'' 5]) SHORT world0)))
      = Tasks [sample_task ''1'' 5]
   \<and> (0 \<le> (1::int) \<and> 1 < SHORT)
   \<and> fst (ss_getCached ''tasks_list'' SHORT (advance 1
        (snd (ss_setCached ''tasks_list'' (Tasks [sample_task ''1'' 5]) SHORT world0))))
      = Tasks [sample_task ''1'' 5]
   \<and> SHORT < SHORT + 1
   \<and> fst (ss_getCached ''tasks_list'' SHORT (advance (SHORT + 1)
        (snd (ss_setCached ''tasks_list'' (Tasks [sample_task ''1'' 5]) SHORT world0))))
      = Null
   \<and> ss_get (CACHE_PREFIX @ ''tasks_list'') (snd (ss_getCached ''tasks_list'' SHORT
        (advance (SHORT + 1)
          (snd (ss_setCached ''tasks_list'' (Tasks [sample_task ''1'' 5]) SHORT world0)))))
      = Null"
  using cache_expiration [of SHORT "''tasks_list''" "Tasks [sample_task ''1'' 5]" world0
      1 "SHORT + 1"]
  by (simp add: SHORT_def)

section \<open>The window of a validity-checked read\<close>

lemma getCached_envelope:
  "storage s (CACHE_PREFIX @ k) = Some (Json (Envelope d ts stored)) \<Longrightarrow>
     ss_getCached k window s =
       (if clock s - ts < window then (d, s)
        else (Null, snd (ss_remove (CACHE_PREFIX @ k) s)))"
  by (simp add: ss_getCached_def Let_def)

text \<open>
  C10. The window of \<open>getCached\<close> is the caller's argument alone. The outcome of reading
  an envelope is a function of the clock, the envelope's timestamp and the argument; the
  \<open>expirationTime\<close> that \<open>setCached\<close> stored does not occur in it. The same entry is a
  hit under every window larger than its age, and under every window that is not, it is
  a miss that deletes the entry.
\<close>

theorem window_is_the_callers:
  "storage s (CACHE_PREFIX @ k) = Some (Json (Envelope d ts stored)) \<Longrightarrow>
     ss_getCached k window s =
       (if clock s - ts < window then (d, s)
        else (Null, snd (ss_remove (CACHE_PREFIX @ k) s)))
   \<and> (clock s - ts < large \<longrightarrow> ss_getCached k large s = (d, s))
   \<and> (small \<le> clock s - ts \<longrightarrow>
        fst (ss_getCached k small s) = Null
      \<and> storage (snd (ss_getCached k small s)) (CACHE_PREFIX @ k) = None)"
  by (simp add: getCached_envelope ss_remove_def)

theorem window_is_the_callers_witness:
  "storage (snd (ss_setCached ''tasks_list'' (Str ''x'') LONG world0))
      (CACHE_PREFIX @ ''tasks_list'') = Some (Json (Envelope (Str ''x'') 1000 LONG))
   \<and> ss_getCached ''tasks_list'' SHORT
        (advance 10 (snd (ss_setCached ''tasks_list'' (Str ''x'') LONG world0)))
      = (Str ''x'', advance 10 (snd (ss_setCached ''tasks_list'' (Str ''x'') LONG world0)))
   \<and> fst (ss_getCached ''tasks_list'' 5
        (advance 10 (snd (ss_setCached ''tasks_list'' (Str ''x'') LONG world0)))) = Null
   \<and> storage (snd (ss_getCached ''tasks_list'' 5
        (advance 10 (snd (ss_setCached ''tasks_list'' (Str ''x'') LONG world0)))))
        (CACHE_PREFIX @ ''tasks_list'') = None"
  using window_is_the_callers
    [of "advance 10 (snd (ss_setCached ''tasks_list'' (Str ''x'') LONG world0))"
        "''tasks_list''" "Str ''x''" 1000 LONG SHORT SHORT 5]
  by (simp add: ss_setCached_def advance_def world0_def SHORT_def Let_def)

section \<open>Reading tasks\<close>

lemma generateUniqueId_frame:
  "storage (snd (generateUniqueId e w)) = storage w"
  "isOnline (snd (generateUniqueId e w)) = isOnline w"
  "clock (snd (generateUniqueId e w)) = clock w"
  "requests (snd (generateUniqueId e w)) = requests w"
  by (simp_all add: generateUniqueId_def)

lemma mapItems_frame:
  "storage (snd (mapItems e its w)) = storage w \<and>
   isOnline (snd (mapItems e its w)) = isOnline w \<and>
   clock (snd (mapItems e its w)) = clock w \<and>
   requests (snd (mapItems e its w)) = requests w"
  by (induction its arbitrary: w)
     (simp_all add: Let_def split_beta generateUniqueId_frame)

lemma getTasks_unfold:
  assumes "fetchTasksFromApi e force w = (fr, w1)"
    and "ss_getTasks w1 = Some L"
    and "fetched_tasks fr = Some R"
  shows "getTasks e force w =
     Some (\<lparr>success = True, data = Some (mergeTasks R (markLocal L)),
            res_source = (if success fr then res_source fr else Some ''api''),
            res_offline = (if success fr then res_offline fr else Some False),
            error = None\<rparr>, w1)"
  using assms
  by (auto simp: getTasks_def fetched_tasks_def Let_def split: if_splits Option.bind_splits)

lemma markLocal_not_remote:
  "\<forall>t \<in> set (markLocal L). source t \<noteq> Some ''api'' \<and> source t \<noteq> Some ''cache''"
  by (simp add: markLocal_def)

lemma markLocal_ids: "map tid (markLocal L) = map tid L"
  by (simp add: markLocal_def)

lemma markLocal_dated: "list_all dated (markLocal L) = list_all dated L"
  by (induction L) (simp_all add: markLocal_def dated_def)

lemma merged_properties:
  "distinct (map tid (mergeTasks R (markLocal L)))
   \<and> set (mergeTasks R (markLocal L)) \<subseteq> set R \<union> set (markLocal L)
   \<and> tid ` set (mergeTasks R (markLocal L)) = tid ` set R \<union> tid ` set L
   \<and> (\<forall>t \<in> set (mergeTasks R (markLocal L)). tid t \<in> tid ` set R \<longrightarrow> t \<in> set R)
   \<and> (distinct (map tid R) \<longrightarrow> set R \<subseteq> set (mergeTasks R (markLocal L)))
   \<and> (distinct (map tid L) \<longrightarrow>
        (\<forall>t \<in> set (markLocal L). tid t \<notin> tid ` set R \<longrightarrow> t \<in> set (mergeTasks R (markLocal L))))
   \<and> (list_all dated R \<and> list_all dated L \<longrightarrow> newest_first (mergeTasks R (markLocal L)))"
proof -
  have ids: "tid ` set (markLocal L) = tid ` set L"
    by (simp add: markLocal_def image_image)
  have a: "tid ` set (mergeTasks R (markLocal L)) = tid ` set R \<union> tid ` set L"
    by (simp only: mergeTasks_ids ids)
  have b: "\<forall>t \<in> set (mergeTasks R (markLocal L)). tid t \<in> tid ` set R \<longrightarrow> t \<in> set R"
    using mergeTasks_remote_wins [OF markLocal_not_remote] by blast
  have c: "distinct (map tid R) \<longrightarrow> set R \<subseteq> set (mergeTasks R (markLocal L))"
    using mergeTasks_remote_kept [OF markLocal_not_remote] by blast
  have d: "distinct (map tid L) \<longrightarrow>
        (\<forall>t \<in> set (markLocal L). tid t \<notin> tid ` set R \<longrightarrow> t \<in> set (mergeTasks R (markLocal L)))"
    using mergeTasks_local_kept [OF markLocal_not_remote, of L _ R]
    by (simp add: markLocal_ids)
  have e: "list_all dated R \<and> list_all dated L \<longrightarrow> newest_first (mergeTasks R (markLocal L))"
    by (simp add: mergeTasks_newest_first markLocal_dated)
  from a b c d e show ?thesis
    using mergeTasks_distinct [of R "markLocal L"] set_mergeTasks_subset [of R "markLocal L"]
    by blast
qed

text \<open>
  C1. Let \<open>R\<close> be the remote or cached tasks that \<open>fetchTasksFromApi\<close> hands to
  \<open>getTasks\<close> and \<open>L\<close> the permanent local tasks. \<open>getTasks\<close> returns the merge of
  \<open>R\<close> with \<open>L\<close>: no two returned tasks have the same id, every returned task whose id
  occurs in \<open>R\<close> is a record of \<open>R\<close> (for an id in both \<open>R\<close> and \<open>L\<close> the record of
  \<open>R\<close> is kept), and the returned ids are those of \<open>R\<close> and \<open>L\<close>.
\<close>

theorem getTasks_merge_precedence:
  assumes "fetchTasksFromApi e force w = (fr, w1)"
    and "ss_getTasks w1 = Some L"
    and "fetched_tasks fr = Some R"
  shows "\<exists>res merged. getTasks e force w = Some (res, w1) \<and> data res = Some merged
     \<and> merged = mergeTasks R (markLocal L)
     \<and> distinct (map tid merged)
     \<and> (\<forall>t \<in> set merged. tid t \<in> tid ` set R \<longrightarrow> t \<in> set R)
     \<and> tid ` set merged = tid ` set R \<union> tid ` set L"
proof -
  have "\<forall>t \<in> set (mergeTasks R (markLocal L)). tid t \<in> tid ` set R \<longrightarrow> t \<in> set R"
    using mergeTasks_remote_wins [OF markLocal_not_remote] by blast
  moreover have "tid ` set (markLocal L) = tid ` set L"
    by (simp add: markLocal_def image_image)
  then have "tid ` set (mergeTasks R (markLocal L)) = tid ` set R \<union> tid ` set L"
    by (simp only: mergeTasks_ids)
  ultimately show ?thesis
    by (simp add: getTasks_unfold [OF assms] mergeTasks_distinct)
qed

lemma cached_world_fetch:
  "fetchTasksFromApi failing False cached_world = (cache_hit (Tasks [remote1]), cached_world)"
  by (simp add: fetchTasksFromApi_def ss_getCached_def cached_world_def world0_def
        CACHE_PREFIX_def SHORT_def cache_hit_def Let_def)

lemma cached_world_tasks: "ss_getTasks cached_world = Some [local2, local1]"
  by (simp add: ss_getTasks_def ss_get_def cached_world_def world0_def TASKS_def Let_def)

theorem getTasks_merge_precedence_witness:
  "fetchTasksFromApi failing False cached_world = (cache_hit (Tasks [remote1]), cached_world)
   \<and> ss_getTasks cached_world = Some [local2, local1]
   \<and> (\<exists>res merged. getTasks failing False cached_world = Some (res, cached_world)
        \<and> data res = Some merged
        \<and> merged = [remote1, local2]
        \<and> distinct (map tid merged)
        \<and> (\<forall>t \<in> set merged. tid t \<in> tid ` set [remote1] \<longrightarrow> t \<in> set [remote1])
        \<and> tid ` set merged = tid ` set [remote1] \<union> tid ` set [local2, local1])"
proof -
  have m: "mergeTasks [remote1] (markLocal [local2, local1]) = [remote1, local2]"
    by (simp add: mergeTasks_def markLocal_def keep_unique_def sort_with_def
          byCreatedAtDesc_def remote1_def local1_def local2_def sample_task_def
          no_fields_def Let_def)
  have r: "fetched_tasks (cache_hit (Tasks [remote1])) = Some [remote1]"
    by (simp add: fetched_tasks_def cache_hit_def)
  from getTasks_merge_precedence [OF cached_world_fetch cached_world_tasks r] m
  show ?thesis
    by (simp add: cached_world_fetch cached_world_tasks)
qed

lemma mergeTasks_sample:
  "mergeTasks [remote1] (markLocal [local2, local1]) = [remote1, local2]"
  by (simp add: mergeTasks_def markLocal_def keep_unique_def sort_with_def
        byCreatedAtDesc_def remote1_def local1_def local2_def sample_task_def
        no_fields_def Let_def)

lemma fetch_valid_cache:
  assumes "storage w (CACHE_PREFIX @ ''tasks_list'') = Some (Json (Envelope (Tasks cached) ts x))"
    and "clock w - ts < SHORT"
  shows "fetchTasksFromApi e False w = (cache_hit (Tasks cached), w)"
  using assms by (simp add: fetchTasksFromApi_def getCached_envelope cache_hit_def)

lemma old_cache_world_merge:
  "mergeTasks [older_remote] (markLocal [local2]) = [local2, older_remote]"
  by (simp add: mergeTasks_def markLocal_def keep_unique_def sort_with_def
        byCreatedAtDesc_def older_remote_def local2_def sample_task_def
        no_fields_def Let_def)

text \<open>
  C9, as the code has it. With a valid SHORT-window cache entry holding the array
  \<open>cached\<close>, \<open>fetchTasksFromApi False\<close> returns exactly \<open>cached\<close> with source
  \<open>cache\<close> and \<open>offline = false\<close>, and the world, with it the log of gateway calls, is
  unchanged. \<open>getTasks False\<close> reports the same source and flag, calls no gateway either,
  and its data is \<open>cached\<close> merged with the permanent local tasks \<open>L\<close>: it holds one
  task per id; each of its tasks is a cached record or a permanent task tagged
  \<open>local_permanent\<close>; its ids are those of \<open>cached\<close> and of \<open>L\<close>; a task whose id is
  cached is the cached record; every cached record is there when \<open>cached\<close> has one
  record per id, and every tagged permanent task whose id is not cached is there when
  \<open>L\<close> has one task per id; and when all tasks of \<open>cached\<close> and of \<open>L\<close> have creation
  dates, the data is in descending order of creation date.
\<close>

theorem valid_cache_read:
  assumes "storage w (CACHE_PREFIX @ ''tasks_list'') = Some (Json (Envelope (Tasks cached) ts x))"
    and "clock w - ts < SHORT"
    and "ss_getTasks w = Some L"
  shows "fetchTasksFromApi e False w = (cache_hit (Tasks cached), w)
     \<and> requests (snd (fetchTasksFromApi e False w)) = requests w
     \<and> (\<exists>res merged. getTasks e False w = Some (res, w) \<and> success res
          \<and> res_source res = Some ''cache'' \<and> res_offline res = Some False
          \<and> data res = Some merged
          \<and> distinct (map tid merged)
          \<and> set merged \<subseteq> set cached \<union> set (markLocal L)
          \<and> tid ` set merged = tid ` set cached \<union> tid ` set L
          \<and> (\<forall>t \<in> set merged. tid t \<in> tid ` set cached \<longrightarrow> t \<in> set cached)
          \<and> (distinct (map tid cached) \<longrightarrow> set cached \<subseteq> set merged)
          \<and> (distinct (map tid L) \<longrightarrow>
               (\<forall>t \<in> set (markLocal L). tid t \<notin> tid ` set cached \<longrightarrow> t \<in> set merged))
          \<and> (list_all dated cached \<and> list_all dated L \<longrightarrow> newest_first merged))"
proof -
  note f = fetch_valid_cache [OF assms(1,2), of e]
  have "fetched_tasks (cache_hit (Tasks cached)) = Some cached"
    by (simp add: fetched_tasks_def cache_hit_def)
  from getTasks_unfold [OF f assms(3) this]
  have g: "getTasks e False w =
     Some (\<lparr>success = True, data = Some (mergeTasks cached (markLocal L)),
            res_source = Some ''cache'', res_offline = Some False, error = None\<rparr>, w)"
    by (simp add: cache_hit_def)
  from f g merged_properties [of cached L] show ?thesis
    by simp
qed

theorem valid_cache_read_witness:
  "storage old_cache_world (CACHE_PREFIX @ ''tasks_list'')
      = Some (Json (Envelope (Tasks [older_remote]) 900 SHORT))
   \<and> clock old_cache_world - 900 < SHORT
   \<and> ss_getTasks old_cache_world = Some [local2]
   \<and> fetchTasksFromApi serving False old_cache_world
        = (cache_hit (Tasks [older_remote]), old_cache_world)
   \<and> getTasks serving False old_cache_world =
        Some (\<lparr>success = True, data = Some [local2, older_remote],
               res_source = Some ''cache'', res_offline = Some False, error = None\<rparr>,
              old_cache_world)
   \<and> distinct (map tid [older_remote]) \<and> distinct (map tid [local2])
   \<and> list_all dated [older_remote] \<and> list_all dated [local2]
   \<and> newest_first [local2, older_remote]"
proof -
  have a: "storage old_cache_world (CACHE_PREFIX @ ''tasks_list'')
      = Some (Json (Envelope (Tasks [older_remote]) 900 SHORT))"
    by (simp add: old_cache_world_def CACHE_PREFIX_def)
  have b: "clock old_cache_world - 900 < SHORT"
    by (simp add: old_cache_world_def world0_def SHORT_def)
  have c: "ss_getTasks old_cache_world = Some [local2]"
    by (simp add: ss_getTasks_def ss_get_def old_cache_world_def world0_def TASKS_def)
  have d: "list_all dated [older_remote] \<and> list_all dated [local2]"
    by (simp add: dated_def older_remote_def local2_def sample_task_def)
  have g: "getTasks serving False old_cache_world =
        Some (\<lparr>success = True, data = Some [local2, older_remote],
               res_source = Some ''cache'', res_offline = Some False, error = None\<rparr>,
              old_cache_world)"
    using getTasks_unfold [OF fetch_valid_cache [OF a b, of serving] c, of "[older_remote]"]
    by (simp add: fetched_tasks_def cache_hit_def old_cache_world_merge)
  from valid_cache_read [OF a b c, of serving] a b c d g
  show ?thesis
    by simp
qed

text \<open>
  C9 as stated fails: with the valid cache entry \<open>[remote1]\<close> and the permanent tasks
  \<open>local2\<close>, \<open>local1\<close>, the data of \<open>getTasks False\<close> is \<open>[remote1, local2]\<close>, not the
  cached array.
\<close>

theorem cached_array_counterexample:
  "fst (ss_getCached ''tasks_list'' SHORT cached_world) = Tasks [remote1]
   \<and> getTasks failing False cached_world =
        Some (\<lparr>success = True, data = Some [remote1, local2],
               res_source = Some ''cache'', res_offline = Some False, error = None\<rparr>,
              cached_world)
   \<and> [remote1, local2] \<noteq> [remote1]"
proof -
  have r: "fetched_tasks (cache_hit (Tasks [remote1])) = Some [remote1]"
    by (simp add: fetched_tasks_def cache_hit_def)
  have "fst (ss_getCached ''tasks_list'' SHORT cached_world) = Tasks [remote1]"
    by (simp add: ss_getCached_def cached_world_def world0_def CACHE_PREFIX_def SHORT_def)
  with getTasks_unfold [OF cached_world_fetch cached_world_tasks r]
  show ?thesis
    by (simp add: mergeTasks_sample cache_hit_def)
qed

lemma fetch_offline_no_cache:
  assumes "\<not> isOnline w" and "storage w (CACHE_PREFIX @ ''tasks_list'') = None"
  shows "fetchTasksFromApi e force w =
     (\<lparr>success = False, data = None, res_source = None, res_offline = Some True,
       error = Some ''Offline and no cached data available.''\<rparr>, w)"
  using assms
  by (simp add: fetchTasksFromApi_def ss_getCached_def ss_get_def stale_data_def
        CACHE_PREFIX_def Let_def)

lemma offline_tasks_merge:
  "mergeTasks [] (markLocal [local1, local2])
     = [local2, local1\<lparr>source := Some ''local_permanent''\<rparr>]"
  by (simp add: mergeTasks_def markLocal_def keep_unique_def sort_with_def
        byCreatedAtDesc_def local1_def local2_def sample_task_def
        no_fields_def Let_def)

text \<open>
  C2, as the code has it. Offline and with no entry under the cache key of the tasks
  collection, \<open>fetchTasksFromApi\<close> returns the failure \<open>success = false\<close>,
  \<open>offline = true\<close>, whatever \<open>forceRefresh\<close> is. \<open>getTasks\<close> does not pass the failure
  on: it returns \<open>success = true\<close>, and its data is made of the permanent local tasks
  \<open>L\<close> alone: one task per id, each a task of \<open>L\<close> tagged \<open>local_permanent\<close>, with the
  ids of \<open>L\<close>; all the tagged tasks when \<open>L\<close> has one task per id; in descending order
  of creation date when all tasks of \<open>L\<close> have creation dates.
\<close>

theorem offline_without_cache:
  assumes "\<not> isOnline w" and "storage w (CACHE_PREFIX @ ''tasks_list'') = None"
    and "ss_getTasks w = Some L"
  shows "fetchTasksFromApi e force w =
     (\<lparr>success = False, data = None, res_source = None, res_offline = Some True,
       error = Some ''Offline and no cached data available.''\<rparr>, w)
   \<and> (\<exists>res merged. getTasks e force w = Some (res, w) \<and> success res
        \<and> data res = Some merged
        \<and> distinct (map tid merged)
        \<and> set merged \<subseteq> set (markLocal L) \<and> tid ` set merged = tid ` set L
        \<and> (distinct (map tid L) \<longrightarrow> set merged = set (markLocal L))
        \<and> (list_all dated L \<longrightarrow> newest_first merged))"
proof -
  note f = fetch_offline_no_cache [OF assms(1,2), of e force]
  have "fetched_tasks \<lparr>success = False, data = None, res_source = None,
      res_offline = Some True, error = Some ''Offline and no cached data available.''\<rparr>
      = Some []"
    by (simp add: fetched_tasks_def)
  note g = getTasks_unfold [OF f assms(3) this]
  note m = merged_properties [of "[]" L]
  from m have s: "set (mergeTasks [] (markLocal L)) \<subseteq> set (markLocal L)"
    by simp
  from m have "distinct (map tid L) \<longrightarrow> set (markLocal L) \<subseteq> set (mergeTasks [] (markLocal L))"
    by auto
  with s have eq: "distinct (map tid L) \<longrightarrow> set (mergeTasks [] (markLocal L)) = set (markLocal L)"
    by blast
  from m have "distinct (map tid (mergeTasks [] (markLocal L)))"
    and "tid ` set (mergeTasks [] (markLocal L)) = tid ` set L"
    and "list_all dated L \<longrightarrow> newest_first (mergeTasks [] (markLocal L))"
    by simp_all
  with g f s eq show ?thesis
    by simp
qed

theorem offline_without_cache_witness:
  "\<not> isOnline offline_tasks_world
   \<and> storage offline_tasks_world (CACHE_PREFIX @ ''tasks_list'') = None
   \<and> ss_getTasks offline_tasks_world = Some [local1, local2]
   \<and> fetchTasksFromApi failing True offline_tasks_world =
     (\<lparr>success = False, data = None, res_source = None, res_offline = Some True,
       error = Some ''Offline and no cached data available.''\<rparr>, offline_tasks_world)
   \<and> getTasks failing True offline_tasks_world =
        Some (\<lparr>success = True,
               data = Some [local2, local1\<lparr>source := Some ''local_permanent''\<rparr>],
               res_source = Some ''api'', res_offline = Some False, error = None\<rparr>,
              offline_tasks_world)
   \<and> distinct (map tid [local1, local2]) \<and> list_all dated [local1, local2]
   \<and> set [local2, local1\<lparr>source := Some ''local_permanent''\<rparr>] = set (markLocal [local1, local2])
   \<and> newest_first [local2, local1\<lparr>source := Some ''local_permanent''\<rparr>]"
proof -
  have a: "\<not> isOnline offline_tasks_world"
    by (simp add: offline_tasks_world_def offline_world_def)
  have b: "storage offline_tasks_world (CACHE_PREFIX @ ''tasks_list'') = None"
    by (simp add: offline_tasks_world_def CACHE_PREFIX_def)
  have c: "ss_getTasks offline_tasks_world = Some [local1, local2]"
    by (simp add: ss_getTasks_def ss_get_def offline_tasks_world_def TASKS_def)
  have d: "distinct (map tid [local1, local2]) \<and> list_all dated [local1, local2]"
    by (simp add: dated_def local1_def local2_def sample_task_def)
  have "fetched_tasks \<lparr>success = False, data = None, res_source = None,
      res_offline = Some True, error = Some ''Offline and no cached data available.''\<rparr>
      = Some []"
    by (simp add: fetched_tasks_def)
  from getTasks_unfold [OF fetch_offline_no_cache [OF a b, of failing True] c this]
  have g: "getTasks failing True offline_tasks_world =
        Some (\<lparr>success = True,
               data = Some [local2, local1\<lparr>source := Some ''local_permanent''\<rparr>],
               res_source = Some ''api'', res_offline = Some False, error = None\<rparr>,
              offline_tasks_world)"
    by (simp add: offline_tasks_merge)
  from offline_without_cache [OF a b c, of failing True] a b c d g
  show ?thesis
    by simp
qed

text \<open>
  C2 as stated fails: offline and with an empty store, \<open>getTasks\<close> returns
  \<open>success = true\<close>.
\<close>

theorem offline_failure_counterexample:
  "\<not> isOnline offline_world
   \<and> storage offline_world ''CACHE_tasks_list'' = None
   \<and> getTasks failing False offline_world =
        Some (\<lparr>success = True, data = Some [], res_source = Some ''api'',
               res_offline = Some False, error = None\<rparr>, offline_world)"
  by (simp add: getTasks_def fetchTasksFromApi_def ss_getCached_def ss_get_def
        ss_getTasks_def stale_data_def offline_world_def world0_def CACHE_PREFIX_def
        TASKS_def mergeTasks_def markLocal_def sort_with_def Let_def)

section \<open>The task repository and the cache\<close>

lemma findIndex_None: "(findIndex P xs = None) = (\<forall>x \<in> set xs. \<not> P x)"
  by (induction xs) auto

lemma findIndex_Some: "findIndex P xs = Some n \<Longrightarrow> n < length xs \<and> P (xs ! n)"
proof (induction xs arbitrary: n)
  case Nil
  then show ?case by simp
next
  case (Cons x xs)
  then show ?case by (auto split: if_splits)
qed

lemma saveTasks_storage:
  "storage (ss_saveTasks ts w) =
     (storage w)(TASKS \<mapsto> Json (Tasks ts),
                 ''CACHE_tasks_list'' \<mapsto> Json (Envelope (Tasks ts) (clock w) SHORT))"
  by (simp add: ss_saveTasks_def ss_set_def ss_setCached_def CACHE_PREFIX_def Let_def)

lemma saveTasks_frame:
  "isOnline (ss_saveTasks ts w) = isOnline w"
  "clock (ss_saveTasks ts w) = clock w"
  "requests (ss_saveTasks ts w) = requests w"
  "draws (ss_saveTasks ts w) = draws w"
  by (simp_all add: ss_saveTasks_def ss_set_def ss_setCached_def Let_def)

lemma getTasks_saveTasks: "ss_getTasks (ss_saveTasks ts w) = Some ts"
  by (simp add: ss_getTasks_def ss_get_def saveTasks_storage TASKS_def Let_def)

lemma getOfflineChanges_saveTasks:
  "ss_getOfflineChanges (ss_saveTasks ts w) = ss_getOfflineChanges w"
  by (simp add: ss_getOfflineChanges_def ss_get_def saveTasks_storage TASKS_def
        OFFLINE_CHANGES_def Let_def)

lemma getCached_saveTasks:
  "ss_getCached ''tasks_list'' SHORT (ss_saveTasks ts w) = (Tasks ts, ss_saveTasks ts w)"
  by (simp add: ss_getCached_def saveTasks_storage saveTasks_frame CACHE_PREFIX_def
        SHORT_def Let_def)

lemma saveTask_eq:
  "ss_getTasks w = Some L \<Longrightarrow>
   ss_saveTask t w = Some (t, ss_saveTasks (sort_with byCreatedAtDesc (upsert t L)) w)"
  by (simp add: ss_saveTask_def upsert_def Let_def)

lemma deleteTask_eq:
  "ss_getTasks w = Some L \<Longrightarrow>
   ss_deleteTask i w = Some (True, ss_saveTasks (filter (\<lambda>t. tid t \<noteq> i) L) w)"
  by (simp add: ss_deleteTask_def Let_def)

lemma updateTask_missing:
  "ss_getTasks w = Some L \<Longrightarrow> i \<notin> tid ` set L \<Longrightarrow> ss_updateTask i u w = Some (None, w)"
proof -
  assume a: "ss_getTasks w = Some L" and "i \<notin> tid ` set L"
  then have "findIndex (\<lambda>t. tid t = i) L = None"
    by (auto simp: findIndex_None)
  with a show ?thesis by (simp add: ss_updateTask_def)
qed

lemma updateTask_present:
  assumes a: "ss_getTasks w = Some L" and i: "i \<in> tid ` set L"
  shows "\<exists>n. n < length L \<and> tid (L ! n) = i \<and>
     ss_updateTask i u w =
       Some (Some (spread (L ! n) u), ss_saveTasks (L[n := spread (L ! n) u]) w)"
proof -
  from i have "findIndex (\<lambda>t. tid t = i) L \<noteq> None"
    by (auto simp: findIndex_None)
  then obtain n where n: "findIndex (\<lambda>t. tid t = i) L = Some n"
    by blast
  from findIndex_Some [OF n] have "n < length L" and "tid (L ! n) = i"
    by simp_all
  moreover from a n \<open>n < length L\<close> have "ss_updateTask i u w =
       Some (Some (spread (L ! n) u), ss_saveTasks (L[n := spread (L ! n) u]) w)"
    by (simp add: ss_updateTask_def Let_def)
  ultimately show ?thesis by blast
qed

lemma set_upsert: "t \<in> set (upsert t L)"
proof (cases "findIndex (\<lambda>x. tid x = tid t) L")
  case None
  then show ?thesis by (simp add: upsert_def)
next
  case (Some n)
  from findIndex_Some [OF Some] have "n < length L" by simp
  with Some show ?thesis
    by (simp add: upsert_def set_update_memI)
qed

lemma distinct_upsert: "distinct (map tid L) \<Longrightarrow> distinct (map tid (upsert t L))"
proof (cases "findIndex (\<lambda>x. tid x = tid t) L")
  case None
  assume "distinct (map tid L)"
  moreover from None have "tid t \<notin> tid ` set L"
    by (auto simp: findIndex_None)
  ultimately show ?thesis using None
    by (simp add: upsert_def)
next
  case (Some n)
  assume d: "distinct (map tid L)"
  from findIndex_Some [OF Some] have "n < length L" and "tid (L ! n) = tid t"
    by simp_all
  then have "map tid (L[n := t]) = map tid L"
    by (simp add: map_update list_update_same_conv)
  with d Some show ?thesis
    by (simp add: upsert_def)
qed

text \<open>
  C8, as the code has it. A repository call that changes the list (\<open>saveTask\<close>,
  \<open>deleteTask\<close>, and \<open>updateTask\<close> of an id that is present) writes the new permanent
  list under \<open>TASKS\<close> and overwrites the cache entry of the tasks collection with that
  list, stamped now: a validity-checked read right after the call is a hit and returns the
  new permanent list. \<open>updateTask\<close> of an id that is absent leaves the store as it was.
\<close>

theorem repository_writes_through:
  assumes "ss_getTasks w = Some L"
  shows "(\<exists>w' L'. ss_saveTask t w = Some (t, w') \<and> ss_getTasks w' = Some L' \<and> t \<in> set L'
            \<and> ss_getCached ''tasks_list'' SHORT w' = (Tasks L', w'))
     \<and> (\<exists>w'. ss_deleteTask i w = Some (True, w')
            \<and> ss_getTasks w' = Some (filter (\<lambda>t. tid t \<noteq> i) L)
            \<and> ss_getCached ''tasks_list'' SHORT w' = (Tasks (filter (\<lambda>t. tid t \<noteq> i) L), w'))
     \<and> (i \<in> tid ` set L \<longrightarrow>
          (\<exists>r w' L'. ss_updateTask i u w = Some (Some r, w') \<and> ss_getTasks w' = Some L'
            \<and> r \<in> set L' \<and> ss_getCached ''tasks_list'' SHORT w' = (Tasks L', w')))
     \<and> (i \<notin> tid ` set L \<longrightarrow> ss_updateTask i u w = Some (None, w))"
proof -
  have save: "\<exists>w' L'. ss_saveTask t w = Some (t, w') \<and> ss_getTasks w' = Some L' \<and> t \<in> set L'
            \<and> ss_getCached ''tasks_list'' SHORT w' = (Tasks L', w')"
    by (simp add: saveTask_eq [OF assms] getTasks_saveTasks getCached_saveTasks
          set_sort_with set_upsert)
  have del: "\<exists>w'. ss_deleteTask i w = Some (True, w')
            \<and> ss_getTasks w' = Some (filter (\<lambda>t. tid t \<noteq> i) L)
            \<and> ss_getCached ''tasks_list'' SHORT w' = (Tasks (filter (\<lambda>t. tid t \<noteq> i) L), w')"
    by (simp add: deleteTask_eq [OF assms] getTasks_saveTasks getCached_saveTasks)
  have upd: "i \<in> tid ` set L \<longrightarrow>
          (\<exists>r w' L'. ss_updateTask i u w = Some (Some r, w') \<and> ss_getTasks w' = Some L'
            \<and> r \<in> set L' \<and> ss_getCached ''tasks_list'' SHORT w' = (Tasks L', w'))"
  proof
    assume "i \<in> tid ` set L"
    from updateTask_present [OF assms this, of u]
    obtain n where n: "n < length L"
      and e: "ss_updateTask i u w =
        Some (Some (spread (L ! n) u), ss_saveTasks (L[n := spread (L ! n) u]) w)"
      by blast
    from n have "spread (L ! n) u \<in> set (L[n := spread (L ! n) u])"
      by (simp add: set_update_memI)
    with e show "\<exists>r w' L'. ss_updateTask i u w = Some (Some r, w') \<and> ss_getTasks w' = Some L'
            \<and> r \<in> set L' \<and> ss_getCached ''tasks_list'' SHORT w' = (Tasks L', w')"
      by (simp add: getTasks_saveTasks getCached_saveTasks)
  qed
  have none: "i \<notin> tid ` set L \<longrightarrow> ss_updateTask i u w = Some (None, w)"
    using updateTask_missing [OF assms] by blast
  from save del upd none show ?thesis by blast
qed

lemma world0_tasks: "ss_getTasks world0 = Some []"
  by (simp add: ss_getTasks_def ss_get_def world0_def)

theorem repository_writes_through_witness:
  "ss_getTasks one_task_world = Some [sample_task ''1'' 5]
   \<and> (\<exists>w' L'. ss_saveTask (sample_task ''2'' 7) one_task_world = Some (sample_task ''2'' 7, w')
        \<and> ss_getTasks w' = Some L' \<and> sample_task ''2'' 7 \<in> set L'
        \<and> ss_getCached ''tasks_list'' SHORT w' = (Tasks L', w'))
   \<and> (\<exists>w'. ss_deleteTask (Some ''1'') one_task_world = Some (True, w')
        \<and> ss_getTasks w' = Some []
        \<and> ss_getCached ''tasks_list'' SHORT w' = (Tasks [], w'))
   \<and> Some ''1'' \<in> tid ` set [sample_task ''1'' 5]
   \<and> (\<exists>r w' L'. ss_updateTask (Some ''1'') (no_fields\<lparr>completed := Some True\<rparr>) one_task_world
          = Some (Some r, w') \<and> ss_getTasks w' = Some L'
        \<and> r \<in> set L' \<and> ss_getCached ''tasks_list'' SHORT w' = (Tasks L', w'))
   \<and> Some ''9'' \<notin> tid ` set [sample_task ''1'' 5]
   \<and> ss_updateTask (Some ''9'') (no_fields\<lparr>completed := Some True\<rparr>) one_task_world
        = Some (None, one_task_world)"
proof -
  have a: "ss_getTasks one_task_world = Some [sample_task ''1'' 5]"
    by (simp add: one_task_world_def getTasks_saveTasks)
  have b: "Some ''1'' \<in> tid ` set [sample_task ''1'' 5]"
    by (simp add: sample_task_def)
  have c: "Some ''9'' \<notin> tid ` set [sample_task ''1'' 5]"
    by (simp add: sample_task_def)
  have d: "filter (\<lambda>t. tid t \<noteq> Some ''1'') [sample_task ''1'' 5] = []"
    by (simp add: sample_task_def)
  from repository_writes_through [OF a, of "sample_task ''2'' 7" "Some ''1''"
      "no_fields\<lparr>completed := Some True\<rparr>"]
    repository_writes_through [OF a, of "sample_task ''2'' 7" "Some ''9''"
      "no_fields\<lparr>completed := Some True\<rparr>"] a b c d
  show ?thesis by simp
qed

text \<open>
  C8 as stated fails: after \<open>saveTask\<close> on the empty store, the validity-checked read of
  the tasks collection returns the array with the saved task, not \<^verbatim>\<open>null\<close>.
\<close>

theorem repository_invalidates_counterexample:
  "ss_saveTask (sample_task ''1'' 5) world0
      = Some (sample_task ''1'' 5, one_task_world)
   \<and> fst (ss_getCached ''tasks_list'' SHORT one_task_world) = Tasks [sample_task ''1'' 5]
   \<and> Tasks [sample_task ''1'' 5] \<noteq> Null"
  by (simp add: saveTask_eq [OF world0_tasks] upsert_def sort_with_def one_task_world_def
        getCached_saveTasks)

section \<open>Durability of permanent tasks\<close>

lemma getCached_frame:
  "isOnline (snd (ss_getCached key x w)) = isOnline w"
  "clock (snd (ss_getCached key x w)) = clock w"
  "requests (snd (ss_getCached key x w)) = requests w"
  "draws (snd (ss_getCached key x w)) = draws w"
  by (simp_all add: ss_getCached_def ss_remove_def Let_def split: option.split item.split jval.split)

lemma getCached_storage:
  "k \<noteq> CACHE_PREFIX @ key \<Longrightarrow> storage (snd (ss_getCached key x w)) k = storage w k"
  by (simp add: ss_getCached_def ss_remove_def Let_def split: option.split item.split jval.split)

lemma setCached_frame:
  "isOnline (snd (ss_setCached key v x w)) = isOnline w"
  "clock (snd (ss_setCached key v x w)) = clock w"
  "requests (snd (ss_setCached key v x w)) = requests w"
  "draws (snd (ss_setCached key v x w)) = draws w"
  by (simp_all add: ss_setCached_def Let_def)

lemma setCached_storage:
  "k \<noteq> CACHE_PREFIX @ key \<Longrightarrow> storage (snd (ss_setCached key v x w)) k = storage w k"
  by (simp add: ss_setCached_def Let_def)

lemma apiCall_frame:
  "storage (snd (apiCall e u m b w)) = storage w"
  "isOnline (snd (apiCall e u m b w)) = isOnline w"
  "clock (snd (apiCall e u m b w)) = clock w"
  "draws (snd (apiCall e u m b w)) = draws w"
  by (simp_all add: apiCall_def Let_def)

lemma fetchFailed_world: "snd (fetchFailed m w) = w"
  by (simp add: fetchFailed_def split: option.split)

lemma fetch_storage:
  assumes "k \<noteq> ''CACHE_tasks_list''"
  shows "storage (snd (fetchTasksFromApi e force w)) k = storage w k"
proof -
  define c where "c = (if \<not> force then ss_getCached ''tasks_list'' SHORT w else (Null, w))"
  have k: "k \<noteq> CACHE_PREFIX @ ''tasks_list''"
    using assms by (simp add: CACHE_PREFIX_def)
  have c: "storage (snd c) k = storage w k"
    by (simp add: c_def getCached_storage [OF k])
  obtain r w2 where a: "apiCall e ''/todos'' ''GET'' None (snd c) = (r, w2)"
    by (cases "apiCall e ''/todos'' ''GET'' None (snd c)")
  then have w2: "storage w2 = storage (snd c)"
    using apiCall_frame(1) [of e "''/todos''" "''GET''" None "snd c"] by simp
  have "storage (snd (fetchTasksFromApi e force w)) k = storage (snd c) k"
    unfolding fetchTasksFromApi_def Let_def c_def [symmetric]
    by (simp add: split_beta a w2 fetchFailed_world setCached_storage [OF k] mapItems_frame
          split: option.split sum.split reply.split)
  with c show ?thesis by simp
qed

lemma fetch_getTasks: "ss_getTasks (snd (fetchTasksFromApi e force w)) = ss_getTasks w"
  by (simp add: ss_getTasks_def ss_get_def fetch_storage TASKS_def)

lemma clearCache_TASKS: "storage (snd (ss_clearCache w)) TASKS = storage w TASKS"
  by (simp add: ss_clearCache_def startsWith_def TASKS_def CACHE_PREFIX_def)

lemma getTasks_cong: "storage w TASKS = storage w' TASKS \<Longrightarrow> ss_getTasks w = ss_getTasks w'"
  by (simp add: ss_getTasks_def ss_get_def)

lemma fetch_snd: "fetchTasksFromApi e force w = (fr, w2) \<Longrightarrow> ss_getTasks w2 = ss_getTasks w"
  using fetch_getTasks [of e force w] by simp

lemma markLocal_mem: "t \<in> set L \<Longrightarrow> t\<lparr>source := Some ''local_permanent''\<rparr> \<in> set (markLocal L)"
  by (simp add: markLocal_def)

lemma cache_readable_cong:
  "storage w' ''CACHE_tasks_list'' = storage w ''CACHE_tasks_list'' \<Longrightarrow>
   cache_readable w' = cache_readable w"
  by (simp add: cache_readable_def)

lemma cache_readable_removed:
  "storage w ''CACHE_tasks_list'' = None \<Longrightarrow> cache_readable w"
  by (simp add: cache_readable_def)

lemma cache_readable_text:
  "storage w ''CACHE_tasks_list'' = Some (Text s) \<Longrightarrow> cache_readable w"
  by (simp add: cache_readable_def)

lemma cache_readable_tasks:
  "storage w ''CACHE_tasks_list'' = Some (Json (Envelope (Tasks ts) t x)) \<Longrightarrow> cache_readable w"
  by (simp add: cache_readable_def)

lemma stale_readable:
  "cache_readable w \<Longrightarrow> stale_data (ss_get ''CACHE_tasks_list'' w) = Some d \<Longrightarrow>
   as_tasks d \<noteq> None"
  by (auto simp: cache_readable_def stale_data_def ss_get_def
        split: option.splits item.splits jval.splits if_splits)

lemma getCached_readable:
  "cache_readable w \<Longrightarrow> truthy (fst (ss_getCached ''tasks_list'' SHORT w)) \<Longrightarrow>
   as_tasks (fst (ss_getCached ''tasks_list'' SHORT w)) \<noteq> None"
  by (auto simp: cache_readable_def ss_getCached_def CACHE_PREFIX_def Let_def
        split: option.splits item.splits jval.splits if_splits)

lemma getCached_keeps_readable:
  "cache_readable w \<Longrightarrow> cache_readable (snd (ss_getCached ''tasks_list'' SHORT w))"
  by (auto simp: cache_readable_def ss_getCached_def ss_remove_def CACHE_PREFIX_def Let_def
        split: option.splits item.splits jval.splits if_splits)

lemma fetchFailed_readable:
  "cache_readable w \<Longrightarrow> fetched_tasks (fst (fetchFailed m w)) \<noteq> None"
  using stale_readable [of w]
  by (auto simp: fetchFailed_def fetched_tasks_def split: option.splits)

lemma fetch_readable:
  assumes r: "cache_readable w"
  shows "fetched_tasks (fst (fetchTasksFromApi e force w)) \<noteq> None
     \<and> cache_readable (snd (fetchTasksFromApi e force w))"
proof -
  define c where "c = (if \<not> force then ss_getCached ''tasks_list'' SHORT w else (Null, w))"
  have r1: "cache_readable (snd c)"
    using r by (simp add: c_def getCached_keeps_readable)
  have t1: "truthy (fst c) \<Longrightarrow> as_tasks (fst c) \<noteq> None"
    using r getCached_readable [of w] by (cases force) (simp_all add: c_def)
  show ?thesis
  proof (cases "truthy (fst c)")
    case True
    with t1 r1 show ?thesis
      unfolding fetchTasksFromApi_def Let_def c_def [symmetric]
      by (simp add: split_beta fetched_tasks_def)
  next
    case miss: False
    show ?thesis
    proof (cases "isOnline (snd c)")
      case False
      with miss r1 stale_readable [OF r1] show ?thesis
        unfolding fetchTasksFromApi_def Let_def c_def [symmetric]
        by (auto simp: split_beta fetched_tasks_def split: option.splits)
    next
      case True
      obtain a w2 where a: "apiCall e ''/todos'' ''GET'' None (snd c) = (a, w2)"
        by (cases "apiCall e ''/todos'' ''GET'' None (snd c)")
      then have "storage w2 = storage (snd c)"
        using apiCall_frame(1) [of e "''/todos''" "''GET''" None "snd c"] by simp
      with r1 have r2: "cache_readable w2"
        using cache_readable_cong [of w2 "snd c"] by simp
      have f2: "snd (fetchFailed m w2) = w2" for m
        by (rule fetchFailed_world)
      show ?thesis
      proof (cases a)
        case (Inl m)
        with miss True a r2 fetchFailed_readable [OF r2, of m] f2 [of m] show ?thesis
          unfolding fetchTasksFromApi_def Let_def c_def [symmetric]
          by (simp add: split_beta)
      next
        case (Inr rep)
        show ?thesis
        proof (cases rep)
          case (Object obj)
          with Inr miss True a r2
            fetchFailed_readable [OF r2, of "''response.map is not a function''"]
            f2 [of "''response.map is not a function''"]
          show ?thesis
            unfolding fetchTasksFromApi_def Let_def c_def [symmetric]
            by (simp add: split_beta)
        next
          case (Items its)
          have "cache_readable (snd (ss_setCached ''tasks_list'' (Tasks ts) SHORT w3))" for ts w3
            by (simp add: cache_readable_def ss_setCached_def CACHE_PREFIX_def Let_def)
          with Items Inr miss True a show ?thesis
            unfolding fetchTasksFromApi_def Let_def c_def [symmetric]
            by (simp add: split_beta fetched_tasks_def)
        qed
      qed
    qed
  qed
qed

lemma clearCache_readable: "cache_readable (snd (ss_clearCache w))"
  by (simp add: cache_readable_def ss_clearCache_def startsWith_def CACHE_PREFIX_def)

lemma clearCache_getTasks: "ss_getTasks (snd (ss_clearCache w)) = ss_getTasks w"
  by (rule getTasks_cong) (rule clearCache_TASKS)

lemma clearAllCaches_eq: "snd (clearAllCaches w) = snd (ss_clearCache w)"
  by (simp add: clearAllCaches_def split_beta)

lemma saveTasks_readable: "cache_readable (ss_saveTasks ts w)"
  by (simp add: cache_readable_def saveTasks_storage)

lemma saveTask_establishes:
  assumes a: "ss_getTasks w0 = Some L0"
  shows "\<exists>w1 L1. ss_saveTask t0 w0 = Some (t0, w1) \<and> ss_getTasks w1 = Some L1
             \<and> t0 \<in> set L1 \<and> cache_readable w1
             \<and> (distinct (map tid L0) \<longrightarrow> distinct (map tid L1))"
proof (intro exI conjI)
  show "ss_saveTask t0 w0 = Some (t0, ss_saveTasks (sort_with byCreatedAtDesc (upsert t0 L0)) w0)"
    by (rule saveTask_eq [OF a])
  show "ss_getTasks (ss_saveTasks (sort_with byCreatedAtDesc (upsert t0 L0)) w0)
      = Some (sort_with byCreatedAtDesc (upsert t0 L0))"
    by (rule getTasks_saveTasks)
  show "t0 \<in> set (sort_with byCreatedAtDesc (upsert t0 L0))"
    by (simp only: set_sort_with set_upsert)
  show "cache_readable (ss_saveTasks (sort_with byCreatedAtDesc (upsert t0 L0)) w0)"
    by (rule saveTasks_readable)
  show "distinct (map tid L0) \<longrightarrow> distinct (map tid (sort_with byCreatedAtDesc (upsert t0 L0)))"
    by (simp only: distinct_map_sort_with) (simp add: distinct_upsert)
qed


lemma getTasks_holds_task:
  assumes f: "fetchTasksFromApi e force w = (fr, w2)" and tasks: "ss_getTasks w2 = Some L"
    and R: "fetched_tasks fr = Some R" and held: "t \<in> set L"
  shows "\<exists>res merged. getTasks e force w = Some (res, w2)
            \<and> success res \<and> data res = Some merged
            \<and> tid t \<in> tid ` set merged
            \<and> (tid t \<notin> tid ` set R \<and> distinct (map tid L) \<longrightarrow>
                 t\<lparr>source := Some ''local_permanent''\<rparr> \<in> set merged)
            \<and> (tid t \<in> tid ` set R \<longrightarrow> (\<forall>r \<in> set merged. tid r = tid t \<longrightarrow> r \<in> set R))"
proof -
  note g = getTasks_unfold [OF f tasks R]
  note m = merged_properties [of R L]
  note m3 = m [THEN conjunct2, THEN conjunct2, THEN conjunct1]
  note m4 = m [THEN conjunct2, THEN conjunct2, THEN conjunct2, THEN conjunct1]
  note m6 = m [THEN conjunct2, THEN conjunct2, THEN conjunct2, THEN conjunct2,
      THEN conjunct2, THEN conjunct1]
  have "tid t \<in> tid ` set L"
    using held by (rule imageI)
  then have ids: "tid t \<in> tid ` set (mergeTasks R (markLocal L))"
    by (simp only: m3 Un_iff simp_thms)
  have kept: "tid t \<notin> tid ` set R \<and> distinct (map tid L) \<longrightarrow>
      t\<lparr>source := Some ''local_permanent''\<rparr> \<in> set (mergeTasks R (markLocal L))"
  proof
    assume a: "tid t \<notin> tid ` set R \<and> distinct (map tid L)"
    then have "tid (t\<lparr>source := Some ''local_permanent''\<rparr>) \<notin> tid ` set R"
      by simp
    moreover from a have "distinct (map tid L)" ..
    with m6
    have "\<forall>x \<in> set (markLocal L). tid x \<notin> tid ` set R \<longrightarrow> x \<in> set (mergeTasks R (markLocal L))"
      by (rule mp)
    then have "tid (t\<lparr>source := Some ''local_permanent''\<rparr>) \<notin> tid ` set R
        \<longrightarrow> t\<lparr>source := Some ''local_permanent''\<rparr> \<in> set (mergeTasks R (markLocal L))"
      using markLocal_mem [OF held] by (rule bspec)
    ultimately show "t\<lparr>source := Some ''local_permanent''\<rparr> \<in> set (mergeTasks R (markLocal L))"
      by (rule rev_mp)
  qed
  have wins: "tid t \<in> tid ` set R \<longrightarrow>
      (\<forall>r \<in> set (mergeTasks R (markLocal L)). tid r = tid t \<longrightarrow> r \<in> set R)"
  proof (intro impI ballI)
    fix r
    assume "tid t \<in> tid ` set R" and r: "r \<in> set (mergeTasks R (markLocal L))"
      and "tid r = tid t"
    then have i: "tid r \<in> tid ` set R" by simp
    from m4 r have "tid r \<in> tid ` set R \<longrightarrow> r \<in> set R" by (rule bspec)
    then show "r \<in> set R" using i by (rule mp)
  qed
  show ?thesis
    unfolding g
  proof (intro exI conjI)
    show "Some (\<lparr>success = True, data = Some (mergeTasks R (markLocal L)),
            res_source = (if success fr then res_source fr else Some ''api''),
            res_offline = (if success fr then res_offline fr else Some False),
            error = None\<rparr>, w2) =
          Some (\<lparr>success = True, data = Some (mergeTasks R (markLocal L)),
            res_source = (if success fr then res_source fr else Some ''api''),
            res_offline = (if success fr then res_offline fr else Some False),
            error = None\<rparr>, w2)" ..
    show "success \<lparr>success = True, data = Some (mergeTasks R (markLocal L)),
            res_source = (if success fr then res_source fr else Some ''api''),
            res_offline = (if success fr then res_offline fr else Some False),
            error = None\<rparr>" by simp
    show "data \<lparr>success = True, data = Some (mergeTasks R (markLocal L)),
            res_source = (if success fr then res_source fr else Some ''api''),
            res_offline = (if success fr then res_offline fr else Some False),
            error = None\<rparr> = Some (mergeTasks R (markLocal L))" by simp
    show "tid t \<in> tid ` set (mergeTasks R (markLocal L))" by (rule ids)
    show "tid t \<notin> tid ` set R \<and> distinct (map tid L) \<longrightarrow>
      t\<lparr>source := Some ''local_permanent''\<rparr> \<in> set (mergeTasks R (markLocal L))" by (rule kept)
    show "tid t \<in> tid ` set R \<longrightarrow>
      (\<forall>r \<in> set (mergeTasks R (markLocal L)). tid r = tid t \<longrightarrow> r \<in> set R)" by (rule wins)
  qed
qed

text \<open>
  C4, as the code has it. Let the repository of \<open>w\<close> hold the task \<open>t\<close>, and let the cache
  entry of the tasks collection be readable: absent, text that does not parse, a value
  that is not an envelope, or an envelope whose data is falsy or an array of tasks. Then
  for every remote system, either value of \<open>forceRefresh\<close> and either connectivity,
  \<open>getTasks\<close> succeeds and its data holds a task with the id of \<open>t\<close>: \<open>t\<close> itself tagged
  \<open>local_permanent\<close> when no remote or cached record \<open>R\<close> has that id and the repository
  holds one task per id, and a record of \<open>R\<close> when one has that id. The call leaves the
  repository as it is and the cache entry readable, so that the same holds for the next
  call; so do \<open>clearCache\<close> and \<open>clearAllCaches\<close>, which leave the \<open>TASKS\<close> key alone,
  and so does a cache entry overwritten with text that does not parse. \<open>saveTask\<close> puts
  its task into the repository, keeps one task per id and leaves the cache entry
  readable.
\<close>

theorem permanent_tasks_survive:
  assumes repo: "ss_getTasks w = Some L" and held: "t \<in> set L" and cache: "cache_readable w"
  shows "(\<exists>res merged R. getTasks e force w = Some (res, snd (fetchTasksFromApi e force w))
            \<and> success res \<and> data res = Some merged
            \<and> fetched_tasks (fst (fetchTasksFromApi e force w)) = Some R
            \<and> tid t \<in> tid ` set merged
            \<and> (tid t \<notin> tid ` set R \<and> distinct (map tid L) \<longrightarrow>
                 t\<lparr>source := Some ''local_permanent''\<rparr> \<in> set merged)
            \<and> (tid t \<in> tid ` set R \<longrightarrow> (\<forall>r \<in> set merged. tid r = tid t \<longrightarrow> r \<in> set R)))
     \<and> storage (snd (fetchTasksFromApi e force w)) TASKS = storage w TASKS
     \<and> ss_getTasks (snd (fetchTasksFromApi e force w)) = Some L
     \<and> cache_readable (snd (fetchTasksFromApi e force w))
     \<and> storage (snd (ss_clearCache w)) TASKS = storage w TASKS
     \<and> ss_getTasks (snd (ss_clearCache w)) = Some L
     \<and> cache_readable (snd (ss_clearCache w))
     \<and> storage (snd (clearAllCaches w)) TASKS = storage w TASKS
     \<and> ss_getTasks (snd (clearAllCaches w)) = Some L
     \<and> cache_readable (snd (clearAllCaches w))
     \<and> ss_getTasks (w\<lparr>storage := (storage w)(''CACHE_tasks_list'' \<mapsto> Text s)\<rparr>) = Some L
     \<and> cache_readable (w\<lparr>storage := (storage w)(''CACHE_tasks_list'' \<mapsto> Text s)\<rparr>)
     \<and> (ss_getTasks w0 = Some L0 \<longrightarrow>
          (\<exists>w1 L1. ss_saveTask t0 w0 = Some (t0, w1) \<and> ss_getTasks w1 = Some L1
             \<and> t0 \<in> set L1 \<and> cache_readable w1
             \<and> (distinct (map tid L0) \<longrightarrow> distinct (map tid L1))))"
proof -
  obtain fr w2 where f: "fetchTasksFromApi e force w = (fr, w2)"
    by (cases "fetchTasksFromApi e force w")
  then have fs: "fst (fetchTasksFromApi e force w) = fr" "snd (fetchTasksFromApi e force w) = w2"
    by simp_all
  from fetch_readable [OF cache, of e force]
  have both: "fetched_tasks fr \<noteq> None \<and> cache_readable w2"
    unfolding fs .
  then have r2: "cache_readable w2" ..
  from both obtain R where R: "fetched_tasks fr = Some R"
    by blast
  from f repo have tasks: "ss_getTasks w2 = Some L"
    by (simp add: fetch_snd)
  from getTasks_holds_task [OF f tasks R held]
  obtain res merged where g: "getTasks e force w = Some (res, w2)"
    and s: "success res" and d: "data res = Some merged"
    and ids: "tid t \<in> tid ` set merged"
    and kept: "tid t \<notin> tid ` set R \<and> distinct (map tid L) \<longrightarrow>
                 t\<lparr>source := Some ''local_permanent''\<rparr> \<in> set merged"
    and wins: "tid t \<in> tid ` set R \<longrightarrow> (\<forall>r \<in> set merged. tid r = tid t \<longrightarrow> r \<in> set R)"
    by (elim exE conjE)
  have c1: "\<exists>res merged R. getTasks e force w = Some (res, snd (fetchTasksFromApi e force w))
            \<and> success res \<and> data res = Some merged
            \<and> fetched_tasks (fst (fetchTasksFromApi e force w)) = Some R
            \<and> tid t \<in> tid ` set merged
            \<and> (tid t \<notin> tid ` set R \<and> distinct (map tid L) \<longrightarrow>
                 t\<lparr>source := Some ''local_permanent''\<rparr> \<in> set merged)
            \<and> (tid t \<in> tid ` set R \<longrightarrow> (\<forall>r \<in> set merged. tid r = tid t \<longrightarrow> r \<in> set R))"
    unfolding fs
    by (intro exI conjI) (rule g s d R ids kept wins)+
  have c1a: "storage (snd (fetchTasksFromApi e force w)) TASKS = storage w TASKS"
    by (rule fetch_storage) (simp add: TASKS_def)
  have c2: "ss_getTasks (snd (fetchTasksFromApi e force w)) = Some L"
    by (simp only: fs tasks)
  have c3: "cache_readable (snd (fetchTasksFromApi e force w))"
    by (simp only: fs r2)
  have c4: "storage (snd (ss_clearCache w)) TASKS = storage w TASKS"
    by (rule clearCache_TASKS)
  have c5: "ss_getTasks (snd (ss_clearCache w)) = Some L"
    by (simp only: clearCache_getTasks repo)
  have c6: "cache_readable (snd (ss_clearCache w))"
    by (rule clearCache_readable)
  have c6a: "storage (snd (clearAllCaches w)) TASKS = storage w TASKS"
    by (simp only: clearAllCaches_eq clearCache_TASKS)
  have c7: "ss_getTasks (snd (clearAllCaches w)) = Some L"
    by (simp only: clearAllCaches_eq clearCache_getTasks repo)
  have c8: "cache_readable (snd (clearAllCaches w))"
    by (simp only: clearAllCaches_eq clearCache_readable)
  have "ss_getTasks (w\<lparr>storage := (storage w)(''CACHE_tasks_list'' \<mapsto> Text s)\<rparr>) = ss_getTasks w"
    by (rule getTasks_cong) (simp add: TASKS_def)
  with repo
  have c9: "ss_getTasks (w\<lparr>storage := (storage w)(''CACHE_tasks_list'' \<mapsto> Text s)\<rparr>) = Some L"
    by simp
  have c10: "cache_readable (w\<lparr>storage := (storage w)(''CACHE_tasks_list'' \<mapsto> Text s)\<rparr>)"
    by (rule cache_readable_text [of _ s]) simp
  have c11: "ss_getTasks w0 = Some L0 \<longrightarrow>
          (\<exists>w1 L1. ss_saveTask t0 w0 = Some (t0, w1) \<and> ss_getTasks w1 = Some L1
             \<and> t0 \<in> set L1 \<and> cache_readable w1
             \<and> (distinct (map tid L0) \<longrightarrow> distinct (map tid L1)))"
    by (rule impI) (rule saveTask_establishes)
  from c1 c1a c2 c3 c4 c5 c6 c6a c7 c8 c9 c10 c11 show ?thesis
    by - (intro conjI; assumption)
qed

lemma corrupted_tasks: "ss_getTasks corrupted_world = Some [sample_task ''1'' 5]"
proof -
  have "ss_getTasks corrupted_world = ss_getTasks one_task_world"
    by (rule getTasks_cong) (simp add: corrupted_world_def TASKS_def)
  then show ?thesis
    by (simp add: one_task_world_def getTasks_saveTasks)
qed

lemma corrupted_readable: "cache_readable corrupted_world"
  by (rule cache_readable_text [of _ "''{not json''"]) (simp add: corrupted_world_def)

lemma corrupted_fetch:
  "fetchTasksFromApi failing False corrupted_world =
     (fetch_error ''Network request failed'', after_failed_fetch)"
  by (simp add: fetchTasksFromApi_def ss_getCached_def ss_remove_def ss_get_def apiCall_def
        fetchFailed_def stale_data_def corrupted_world_def after_failed_fetch_def
        one_task_world_def saveTasks_storage saveTasks_frame world0_def failing_def
        fetch_error_def CACHE_PREFIX_def TASKS_def Let_def)

lemma corrupted_merge:
  "mergeTasks [] (markLocal [sample_task ''1'' 5]) =
     [(sample_task ''1'' 5)\<lparr>source := Some ''local_permanent''\<rparr>]"
  by (simp add: mergeTasks_def markLocal_def keep_unique_def sort_with_def Let_def)

theorem permanent_tasks_survive_witness:
  "ss_getTasks corrupted_world = Some [sample_task ''1'' 5]
   \<and> sample_task ''1'' 5 \<in> set [sample_task ''1'' 5]
   \<and> cache_readable corrupted_world
   \<and> ss_getTasks world0 = Some []
   \<and> getTasks failing False corrupted_world =
        Some (\<lparr>success = True,
               data = Some [(sample_task ''1'' 5)\<lparr>source := Some ''local_permanent''\<rparr>],
               res_source = Some ''api'', res_offline = Some False, error = None\<rparr>,
              after_failed_fetch)
   \<and> ss_getTasks after_failed_fetch = Some [sample_task ''1'' 5]
   \<and> cache_readable after_failed_fetch
   \<and> storage (snd (ss_clearCache corrupted_world)) TASKS = storage corrupted_world TASKS
   \<and> ss_getTasks (snd (ss_clearCache corrupted_world)) = Some [sample_task ''1'' 5]
   \<and> ss_getTasks (snd (clearAllCaches corrupted_world)) = Some [sample_task ''1'' 5]
   \<and> ss_saveTask (sample_task ''1'' 5) world0 = Some (sample_task ''1'' 5, one_task_world)
   \<and> ss_getTasks one_task_world = Some [sample_task ''1'' 5]
   \<and> cache_readable one_task_world"
proof -
  have h: "sample_task ''1'' 5 \<in> set [sample_task ''1'' 5]"
    by simp
  have s: "ss_saveTask (sample_task ''1'' 5) world0 = Some (sample_task ''1'' 5, one_task_world)"
    by (simp add: saveTask_eq [OF world0_tasks] upsert_def sort_with_def one_task_world_def)
  have r: "fetched_tasks (fetch_error ''Network request failed'') = Some []"
    by (simp add: fetched_tasks_def fetch_error_def)
  have g: "getTasks failing False corrupted_world =
        Some (\<lparr>success = True,
               data = Some [(sample_task ''1'' 5)\<lparr>source := Some ''local_permanent''\<rparr>],
               res_source = Some ''api'', res_offline = Some False, error = None\<rparr>,
              after_failed_fetch)"
    using getTasks_unfold [OF corrupted_fetch _ r, of "[sample_task ''1'' 5]"]
      fetch_snd [OF corrupted_fetch]
    by (simp add: corrupted_tasks corrupted_merge fetch_error_def)
  from permanent_tasks_survive [OF corrupted_tasks h corrupted_readable,
      where e = failing and force = False and ?w0.0 = world0 and ?L0.0 = "[]"
        and ?t0.0 = "sample_task ''1'' 5" and s = "''x''"]
    corrupted_tasks corrupted_readable world0_tasks g s
  show ?thesis
    by (simp add: corrupted_fetch one_task_world_def getTasks_saveTasks saveTasks_readable)
qed

lemma before_save_tasks: "ss_getTasks before_save = Some [local2]"
  by (simp add: ss_getTasks_def ss_get_def before_save_def world0_def TASKS_def)

lemma after_save_tasks: "ss_getTasks after_save = Some [local2, local1]"
  by (simp add: after_save_def getTasks_saveTasks)

lemma save_local1: "ss_saveTask local1 before_save = Some (local1, after_save)"
  by (simp add: saveTask_eq [OF before_save_tasks] after_save_def upsert_def sort_with_def
        byCreatedAtDesc_def local1_def local2_def sample_task_def no_fields_def)

lemma show_nat_1: "char_of (49 :: nat) = CHR ''1''"
  by code_simp

lemma after_save_fetch:
  "fst (fetchTasksFromApi serving True after_save) =
     \<lparr>success = True, data = Some (Tasks [served1]), res_source = Some ''api'',
      res_offline = Some False, error = None\<rparr>"
  by (simp add: fetchTasksFromApi_def apiCall_def after_save_def saveTasks_frame
        before_save_def world0_def serving_def served1_def show_nat_1 Let_def)

lemma served_merge:
  "mergeTasks [served1] (markLocal [local2, local1]) = [served1, local2]"
  by (simp add: mergeTasks_def markLocal_def keep_unique_def sort_with_def
        byCreatedAtDesc_def served1_def local1_def local2_def sample_task_def
        no_fields_def Let_def)

lemma object_cache_tasks: "ss_getTasks object_cache_world = Some [local2]"
  by (simp add: ss_getTasks_def ss_get_def object_cache_world_def world0_def TASKS_def)

lemma object_cache_fetch:
  "fetchTasksFromApi e False object_cache_world =
     (cache_hit (Envelope Null 0 0), object_cache_world)"
  by (simp add: fetchTasksFromApi_def ss_getCached_def object_cache_world_def world0_def
        CACHE_PREFIX_def SHORT_def cache_hit_def Let_def)

text \<open>
  C4 as stated fails. The repository holds \<open>local2\<close> and \<open>saveTask\<close> stores \<open>local1\<close>,
  whose id is \<open>1\<close>; the forced \<open>getTasks\<close> that follows fetches a remote record with the
  id \<open>1\<close>, and its data holds that record and \<open>local2\<close>, but neither \<open>local1\<close> nor its
  tagged copy. And with a valid cache entry whose data is an object and not an array,
  the spread \<^verbatim>\<open>[...finalData, ...markedLocalTasks]\<close> raises: \<open>getTasks\<close> returns nothing,
  whatever the repository holds.
\<close>

theorem displaced_task_counterexample:
  "ss_saveTask local1 before_save = Some (local1, after_save)
   \<and> ss_getTasks after_save = Some [local2, local1]
   \<and> map_option fst (getTasks serving True after_save) =
        Some \<lparr>success = True, data = Some [served1, local2], res_source = Some ''api'',
              res_offline = Some False, error = None\<rparr>
   \<and> local1 \<notin> set [served1, local2]
   \<and> local1\<lparr>source := Some ''local_permanent''\<rparr> \<notin> set [served1, local2]
   \<and> ss_getTasks object_cache_world = Some [local2]
   \<and> getTasks failing False object_cache_world = None"
proof -
  obtain fr w2 where f: "fetchTasksFromApi serving True after_save = (fr, w2)"
    by (cases "fetchTasksFromApi serving True after_save")
  with after_save_fetch
  have fr: "fr = \<lparr>success = True, data = Some (Tasks [served1]), res_source = Some ''api'',
      res_offline = Some False, error = None\<rparr>"
    by simp
  then have R: "fetched_tasks fr = Some [served1]"
    by (simp add: fetched_tasks_def)
  from f have tasks: "ss_getTasks w2 = Some [local2, local1]"
    by (simp add: fetch_snd after_save_tasks)
  have g: "map_option fst (getTasks serving True after_save) =
        Some \<lparr>success = True, data = Some [served1, local2], res_source = Some ''api'',
              res_offline = Some False, error = None\<rparr>"
    by (simp add: getTasks_unfold [OF f tasks R] served_merge fr)
  have n: "local1 \<notin> set [served1, local2]
      \<and> local1\<lparr>source := Some ''local_permanent''\<rparr> \<notin> set [served1, local2]"
    by (simp add: local1_def local2_def served1_def sample_task_def no_fields_def)
  have o: "getTasks failing False object_cache_world = None"
    by (simp add: getTasks_def object_cache_fetch object_cache_tasks cache_hit_def)
  from save_local1 after_save_tasks g n object_cache_tasks o show ?thesis
    by simp
qed

section \<open>Updating and deleting\<close>

lemma getOfflineChanges_cong:
  "storage w OFFLINE_CHANGES = storage w' OFFLINE_CHANGES \<Longrightarrow>
   ss_getOfflineChanges w = ss_getOfflineChanges w'"
  by (simp add: ss_getOfflineChanges_def ss_get_def)

lemma remove_frame:
  "storage (snd (ss_remove k w)) = (storage w)(k := None)"
  "isOnline (snd (ss_remove k w)) = isOnline w"
  "clock (snd (ss_remove k w)) = clock w"
  "requests (snd (ss_remove k w)) = requests w"
  "draws (snd (ss_remove k w)) = draws w"
  by (simp_all add: ss_remove_def)

lemma remove_cache_getTasks [simp]:
  "ss_getTasks (snd (ss_remove ''CACHE_tasks_list'' w)) = ss_getTasks w"
  by (rule getTasks_cong) (simp add: remove_frame TASKS_def)

lemma remove_cache_getOfflineChanges [simp]:
  "ss_getOfflineChanges (snd (ss_remove ''CACHE_tasks_list'' w)) = ss_getOfflineChanges w"
  by (rule getOfflineChanges_cong) (simp add: remove_frame OFFLINE_CHANGES_def)

lemma enqueue_eq:
  assumes q: "ss_getOfflineChanges w = Some q"
  shows "\<exists>w'. addToOfflineChangesQueue e act t w = Some w'
     \<and> storage w' = (storage w)(OFFLINE_CHANGES \<mapsto> Json (Changes (q @ [enqueued e act t w])))
     \<and> isOnline w' = isOnline w \<and> clock w' = clock w \<and> requests w' = requests w"
proof (cases "truthy_id (tid t)")
  case True
  with q show ?thesis
    by (simp add: addToOfflineChangesQueue_def enqueued_def ss_saveOfflineChanges_def
          ss_set_def Let_def)
next
  case False
  have "ss_getOfflineChanges (snd (generateUniqueId e w)) = Some q"
    using q getOfflineChanges_cong [of "snd (generateUniqueId e w)" w]
    by (simp add: generateUniqueId_frame)
  with False show ?thesis
    by (simp add: addToOfflineChangesQueue_def enqueued_def ss_saveOfflineChanges_def
          ss_set_def Let_def split_beta generateUniqueId_frame)
qed

lemma enqueue_spec:
  assumes q: "ss_getOfflineChanges w = Some q"
  shows "\<exists>w'. addToOfflineChangesQueue e act t w = Some w'
     \<and> ss_getOfflineChanges w' = Some (q @ [enqueued e act t w])
     \<and> ss_getTasks w' = ss_getTasks w
     \<and> isOnline w' = isOnline w \<and> clock w' = clock w \<and> requests w' = requests w"
proof -
  from enqueue_eq [OF q, of e act t] obtain w'
    where a: "addToOfflineChangesQueue e act t w = Some w'"
      and s: "storage w' = (storage w)(OFFLINE_CHANGES \<mapsto> Json (Changes (q @ [enqueued e act t w])))"
      and f: "isOnline w' = isOnline w" "clock w' = clock w" "requests w' = requests w"
    by blast
  from s have "ss_getOfflineChanges w' = Some (q @ [enqueued e act t w])"
    by (simp add: ss_getOfflineChanges_def ss_get_def)
  moreover have "ss_getTasks w' = ss_getTasks w"
    by (rule getTasks_cong) (simp add: s TASKS_def OFFLINE_CHANGES_def)
  ultimately show ?thesis using a f by simp
qed

lemma enqueued_cong:
  "clock w = clock w' \<Longrightarrow> draws w = draws w' \<Longrightarrow> enqueued e a t w = enqueued e a t w'"
  by (simp add: enqueued_def generateUniqueId_def)

lemma apiCall_eq:
  "apiCall e u m b w =
     (remote e (length (requests w)) \<lparr>endpoint = u, httpMethod = m, body = b\<rparr>,
      w\<lparr>requests := requests w @ [\<lparr>endpoint = u, httpMethod = m, body = b\<rparr>]\<rparr>)"
  by (simp add: apiCall_def Let_def)

lemma getTasks_requests [simp]: "ss_getTasks (w\<lparr>requests := rs\<rparr>) = ss_getTasks w"
  by (rule getTasks_cong) simp

lemma getOfflineChanges_requests [simp]:
  "ss_getOfflineChanges (w\<lparr>requests := rs\<rparr>) = ss_getOfflineChanges w"
  by (rule getOfflineChanges_cong) simp

lemma updateTask_spec:
  assumes q: "ss_getOfflineChanges w = Some q"
  shows "\<exists>r w'. updateTask e i u w = Some (r, w') \<and> success r
     \<and> ss_getTasks w' = ss_getTasks w \<and> isOnline w' = isOnline w
     \<and> requests w' = requests w @ (if isOnline w then [put_request i u] else [])
     \<and> (if isOnline w \<and> \<not> isl (remote e (length (requests w)) (put_request i u))
         then res_offline r = Some False \<and> ss_getOfflineChanges w' = Some q
         else res_offline r = Some True
            \<and> ss_getOfflineChanges w' =
                 Some (q @ [enqueued e ''update'' (spread (no_fields\<lparr>tid := i\<rparr>) u) w]))"
proof (cases "isOnline w")
  case False
  from enqueue_spec [OF q, of e "''update''" "spread (no_fields\<lparr>tid := i\<rparr>) u"]
  obtain w' where "addToOfflineChangesQueue e ''update'' (spread (no_fields\<lparr>tid := i\<rparr>) u) w = Some w'"
    and "ss_getOfflineChanges w' = Some (q @ [enqueued e ''update'' (spread (no_fields\<lparr>tid := i\<rparr>) u) w])"
    and "ss_getTasks w' = ss_getTasks w" and "isOnline w' = isOnline w"
    and "requests w' = requests w"
    by blast
  with False show ?thesis
    by (simp add: updateTask_def)
next
  case True
  let ?w1 = "w\<lparr>requests := requests w @ [put_request i u]\<rparr>"
  show ?thesis
  proof (cases "remote e (length (requests w)) (put_request i u)")
    case (Inr r)
    with True q show ?thesis
      by (simp add: updateTask_def apiCall_eq put_request_def)
  next
    case (Inl m)
    have q1: "ss_getOfflineChanges ?w1 = Some q"
      using q by simp
    from enqueue_spec [OF q1, of e "''update''" "spread (no_fields\<lparr>tid := i\<rparr>) u"]
    obtain w' where "addToOfflineChangesQueue e ''update'' (spread (no_fields\<lparr>tid := i\<rparr>) u) ?w1 = Some w'"
      and "ss_getOfflineChanges w' = Some (q @ [enqueued e ''update'' (spread (no_fields\<lparr>tid := i\<rparr>) u) ?w1])"
      and "ss_getTasks w' = ss_getTasks ?w1" and "isOnline w' = isOnline ?w1"
      and "requests w' = requests ?w1"
      by blast
    moreover have "enqueued e ''update'' (spread (no_fields\<lparr>tid := i\<rparr>) u) ?w1
        = enqueued e ''update'' (spread (no_fields\<lparr>tid := i\<rparr>) u) w"
      by (rule enqueued_cong) simp_all
    ultimately show ?thesis using True Inl
      by (simp add: updateTask_def apiCall_eq put_request_def)
  qed
qed

lemma getTaskById_eq:
  "ss_getTasks w = Some L \<Longrightarrow>
   ss_getTaskById i w = Some (find (\<lambda>t. tid t = i) L)"
  by (simp add: ss_getTaskById_def)

lemma find_by_id: "(find (\<lambda>t. tid t = i) L = None) = (i \<notin> tid ` set L)"
  by (auto simp: find_None_iff)

lemma filter_absent: "i \<notin> tid ` set L \<Longrightarrow> filter (\<lambda>t. tid t \<noteq> i) L = L"
  by (induction L) auto

lemma deleteTask_local:
  assumes L: "ss_getTasks w = Some L" and i: "i \<in> tid ` set L"
  shows "deleteTask e i w =
     Some (\<lparr>success = True, data = None, res_source = Some ''local_permanent'',
            res_offline = Some True, error = None\<rparr>,
           snd (ss_remove ''CACHE_tasks_list'' (ss_saveTasks (filter (\<lambda>t. tid t \<noteq> i) L) w)))"
proof -
  from i obtain x where "find (\<lambda>t. tid t = i) L = Some x"
    using find_by_id [of i L] by (cases "find (\<lambda>t. tid t = i) L") simp_all
  then show ?thesis
    by (simp add: deleteTask_def getTaskById_eq [OF L] deleteTask_eq [OF L])
qed

lemma deleteTask_spec:
  assumes L: "ss_getTasks w = Some L" and q: "ss_getOfflineChanges w = Some q"
  shows "\<exists>r w'. deleteTask e i w = Some (r, w') \<and> success r
     \<and> isOnline w' = isOnline w
     \<and> storage w' ''CACHE_tasks_list'' = None
     \<and> ss_getTasks w' = Some (filter (\<lambda>t. tid t \<noteq> i) L)
     \<and> (if i \<in> tid ` set L
         then requests w' = requests w \<and> ss_getOfflineChanges w' = Some q
            \<and> res_source r = Some ''local_permanent''
         else requests w' = requests w @ (if isOnline w then [delete_request i] else [])
            \<and> (if isOnline w \<and> \<not> isl (remote e (length (requests w)) (delete_request i))
                then res_offline r = Some False \<and> ss_getOfflineChanges w' = Some q
                else res_offline r = Some True
                   \<and> ss_getOfflineChanges w' =
                        Some (q @ [enqueued e ''delete'' (no_fields\<lparr>tid := i\<rparr>) w])))"
proof (cases "i \<in> tid ` set L")
  case True
  then show ?thesis
    by (simp add: deleteTask_local [OF L True] remove_frame saveTasks_frame
          getTasks_saveTasks getOfflineChanges_saveTasks q)
next
  case absent: False
  then have f: "filter (\<lambda>t. tid t \<noteq> i) L = L"
    by (rule filter_absent)
  from absent have nf: "find (\<lambda>t. tid t = i) L = None"
    using find_by_id [of i L] by simp
  show ?thesis
  proof (cases "isOnline w")
    case False
    from enqueue_spec [OF q, of e "''delete''" "no_fields\<lparr>tid := i\<rparr>"]
    obtain w' where "addToOfflineChangesQueue e ''delete'' (no_fields\<lparr>tid := i\<rparr>) w = Some w'"
      and "ss_getOfflineChanges w' = Some (q @ [enqueued e ''delete'' (no_fields\<lparr>tid := i\<rparr>) w])"
      and "ss_getTasks w' = ss_getTasks w" and "isOnline w' = isOnline w"
      and "requests w' = requests w"
      by blast
    with False absent f nf L show ?thesis
      by (simp add: deleteTask_def getTaskById_eq [OF L] remove_frame)
  next
    case True
    let ?w1 = "w\<lparr>requests := requests w @ [delete_request i]\<rparr>"
    show ?thesis
    proof (cases "remote e (length (requests w)) (delete_request i)")
      case (Inr r)
      with True absent f nf L q show ?thesis
        by (simp add: deleteTask_def getTaskById_eq [OF L] apiCall_eq delete_request_def
              remove_frame)
    next
      case (Inl m)
      have q1: "ss_getOfflineChanges ?w1 = Some q"
        using q by simp
      from enqueue_spec [OF q1, of e "''delete''" "no_fields\<lparr>tid := i\<rparr>"]
      obtain w' where "addToOfflineChangesQueue e ''delete'' (no_fields\<lparr>tid := i\<rparr>) ?w1 = Some w'"
        and "ss_getOfflineChanges w' = Some (q @ [enqueued e ''delete'' (no_fields\<lparr>tid := i\<rparr>) ?w1])"
        and "ss_getTasks w' = ss_getTasks ?w1" and "isOnline w' = isOnline ?w1"
        and "requests w' = requests ?w1"
        by blast
      moreover have "enqueued e ''delete'' (no_fields\<lparr>tid := i\<rparr>) ?w1
          = enqueued e ''delete'' (no_fields\<lparr>tid := i\<rparr>) w"
        by (rule enqueued_cong) simp_all
      ultimately show ?thesis using True Inl absent f nf L
        by (simp add: deleteTask_def getTaskById_eq [OF L] apiCall_eq delete_request_def
              remove_frame)
    qed
  qed
qed

text \<open>
  C5. On a store whose \<open>TASKS\<close> and \<open>OFFLINE_CHANGES\<close> keys hold what the program
  writes there, \<open>updateTask\<close> and \<open>deleteTask\<close> return, and return \<open>success = true\<close>,
  whatever the connectivity and whatever the remote system answers: when the remote call
  succeeds the queue is unchanged and \<open>offline = false\<close>; when it fails while online, or
  when the device is offline, the change is appended to the offline queue and
  \<open>offline = true\<close>; a delete of a permanent local task never reaches the queue. Deleting
  an id that is in neither place is the case of an absent id and a failing remote.
\<close>

theorem mutations_report_success:
  assumes L: "ss_getTasks w = Some L" and q: "ss_getOfflineChanges w = Some q"
  shows "(\<exists>r w'. updateTask e i u w = Some (r, w') \<and> success r
           \<and> (if isOnline w \<and> \<not> isl (remote e (length (requests w)) (put_request i u))
               then res_offline r = Some False \<and> ss_getOfflineChanges w' = Some q
               else res_offline r = Some True
                  \<and> ss_getOfflineChanges w' =
                       Some (q @ [enqueued e ''update'' (spread (no_fields\<lparr>tid := i\<rparr>) u) w])))
     \<and> (\<exists>r w'. deleteTask e i w = Some (r, w') \<and> success r
           \<and> (if i \<in> tid ` set L
               then res_source r = Some ''local_permanent'' \<and> ss_getOfflineChanges w' = Some q
               else if isOnline w \<and> \<not> isl (remote e (length (requests w)) (delete_request i))
               then res_offline r = Some False \<and> ss_getOfflineChanges w' = Some q
               else res_offline r = Some True
                  \<and> ss_getOfflineChanges w' =
                       Some (q @ [enqueued e ''delete'' (no_fields\<lparr>tid := i\<rparr>) w])))"
proof -
  from updateTask_spec [OF q, of e i u]
  have u: "\<exists>r w'. updateTask e i u w = Some (r, w') \<and> success r
           \<and> (if isOnline w \<and> \<not> isl (remote e (length (requests w)) (put_request i u))
               then res_offline r = Some False \<and> ss_getOfflineChanges w' = Some q
               else res_offline r = Some True
                  \<and> ss_getOfflineChanges w' =
                       Some (q @ [enqueued e ''update'' (spread (no_fields\<lparr>tid := i\<rparr>) u) w]))"
    by blast
  from deleteTask_spec [OF L q, of e i]
  obtain r w' where d: "deleteTask e i w = Some (r, w')" "success r"
    and c: "if i \<in> tid ` set L
         then requests w' = requests w \<and> ss_getOfflineChanges w' = Some q
            \<and> res_source r = Some ''local_permanent''
         else requests w' = requests w @ (if isOnline w then [delete_request i] else [])
            \<and> (if isOnline w \<and> \<not> isl (remote e (length (requests w)) (delete_request i))
                then res_offline r = Some False \<and> ss_getOfflineChanges w' = Some q
                else res_offline r = Some True
                   \<and> ss_getOfflineChanges w' =
                        Some (q @ [enqueued e ''delete'' (no_fields\<lparr>tid := i\<rparr>) w]))"
    by blast
  from c have "if i \<in> tid ` set L
               then res_source r = Some ''local_permanent'' \<and> ss_getOfflineChanges w' = Some q
               else if isOnline w \<and> \<not> isl (remote e (length (requests w)) (delete_request i))
               then res_offline r = Some False \<and> ss_getOfflineChanges w' = Some q
               else res_offline r = Some True
                  \<and> ss_getOfflineChanges w' =
                       Some (q @ [enqueued e ''delete'' (no_fields\<lparr>tid := i\<rparr>) w])"
    by (simp split: if_splits)
  with d have "\<exists>r w'. deleteTask e i w = Some (r, w') \<and> success r
           \<and> (if i \<in> tid ` set L
               then res_source r = Some ''local_permanent'' \<and> ss_getOfflineChanges w' = Some q
               else if isOnline w \<and> \<not> isl (remote e (length (requests w)) (delete_request i))
               then res_offline r = Some False \<and> ss_getOfflineChanges w' = Some q
               else res_offline r = Some True
                  \<and> ss_getOfflineChanges w' =
                       Some (q @ [enqueued e ''delete'' (no_fields\<lparr>tid := i\<rparr>) w]))"
    by blast
  with u show ?thesis by blast
qed

lemma world0_queue: "ss_getOfflineChanges world0 = Some []"
  by (simp add: ss_getOfflineChanges_def ss_get_def world0_def)

theorem mutations_report_success_witness:
  "ss_getTasks world0 = Some [] \<and> ss_getOfflineChanges world0 = Some []
   \<and> (\<exists>r w'. updateTask failing (Some ''42'') (no_fields\<lparr>completed := Some True\<rparr>) world0
          = Some (r, w') \<and> success r \<and> res_offline r = Some True
        \<and> ss_getOfflineChanges w' = Some [enqueued failing ''update''
             (spread (no_fields\<lparr>tid := Some ''42''\<rparr>) (no_fields\<lparr>completed := Some True\<rparr>)) world0])
   \<and> (\<exists>r w'. deleteTask failing (Some ''42'') world0 = Some (r, w') \<and> success r
        \<and> res_offline r = Some True
        \<and> ss_getOfflineChanges w' = Some [enqueued failing ''delete''
             (no_fields\<lparr>tid := Some ''42''\<rparr>) world0])"
proof -
  have a: "isOnline world0"
    by (simp add: world0_def)
  have b: "isl (remote failing n r)" for n r
    by (simp add: failing_def)
  from mutations_report_success [OF world0_tasks world0_queue, of failing "Some ''42''"
      "no_fields\<lparr>completed := Some True\<rparr>"] a b
  show ?thesis
    by (simp add: world0_tasks world0_queue)
qed

section \<open>Draining the offline queue\<close>

lemma replayChange_spec:
  assumes L: "ss_getTasks w = Some L" and q: "ss_getOfflineChanges w = Some q"
    and on: "isOnline w"
  shows "\<exists>r w' L' q' new. replayChange e c w = Some (r, w')
     \<and> taskId r = tid (task c) \<and> entry_action r = replayed_as (action c)
     \<and> success (result r)
     \<and> ss_getTasks w' = Some L' \<and> ss_getOfflineChanges w' = Some q' \<and> isOnline w'
     \<and> requests w' = requests w @ new \<and> (new = [] \<or> new = [request_of c])
     \<and> (tid (task c) \<notin> tid ` set L \<longrightarrow> new = [request_of c] \<and> L' = L)"
proof (cases "action c = ''delete''")
  case True
  from deleteTask_spec [OF L q, of e "tid (task c)"]
  obtain r w' where d: "deleteTask e (tid (task c)) w = Some (r, w')"
    and o: "isOnline w' = isOnline w"
    and t: "ss_getTasks w' = Some (filter (\<lambda>t. tid t \<noteq> tid (task c)) L)"
    and c: "if tid (task c) \<in> tid ` set L
         then requests w' = requests w \<and> ss_getOfflineChanges w' = Some q
            \<and> res_source r = Some ''local_permanent''
         else requests w' = requests w @ (if isOnline w then [delete_request (tid (task c))] else [])
            \<and> (if isOnline w \<and> \<not> isl (remote e (length (requests w)) (delete_request (tid (task c))))
                then res_offline r = Some False \<and> ss_getOfflineChanges w' = Some q
                else res_offline r = Some True
                   \<and> ss_getOfflineChanges w' =
                        Some (q @ [enqueued e ''delete'' (no_fields\<lparr>tid := tid (task c)\<rparr>) w]))"
    by blast
  from c obtain q' where q': "ss_getOfflineChanges w' = Some q'"
    by (auto split: if_splits)
  from c on True have r: "requests w' =
      requests w @ (if tid (task c) \<in> tid ` set L then [] else [request_of c])"
    by (simp add: request_of_def split: if_splits)
  have "tid (task c) \<notin> tid ` set L \<longrightarrow> filter (\<lambda>t. tid t \<noteq> tid (task c)) L = L"
    by (simp add: filter_absent)
  with d o t q' r on True show ?thesis
    by (simp add: replayChange_def replayed_as_def)
next
  case False
  from updateTask_spec [OF q, of e "tid (task c)" "task c"]
  obtain r w' where u: "updateTask e (tid (task c)) (task c) w = Some (r, w')"
    and sr: "success r"
    and t: "ss_getTasks w' = ss_getTasks w" and o: "isOnline w' = isOnline w"
    and rq: "requests w' = requests w @ (if isOnline w then [put_request (tid (task c)) (task c)] else [])"
    and c: "if isOnline w \<and> \<not> isl (remote e (length (requests w)) (put_request (tid (task c)) (task c)))
         then res_offline r = Some False \<and> ss_getOfflineChanges w' = Some q
         else res_offline r = Some True
            \<and> ss_getOfflineChanges w' =
                 Some (q @ [enqueued e ''update'' (spread (no_fields\<lparr>tid := tid (task c)\<rparr>) (task c)) w])"
    by blast
  from c obtain q' where q': "ss_getOfflineChanges w' = Some q'"
    by (auto split: if_splits)
  from rq on False have "requests w' = requests w @ [request_of c]"
    by (simp add: request_of_def)
  with u sr t o q' L on False show ?thesis
    by (simp add: replayChange_def replayed_as_def)
qed

lemma replayAll_spec:
  assumes "ss_getTasks w = Some L" and "ss_getOfflineChanges w = Some q" and "isOnline w"
  shows "\<exists>rs w' L' q' new. replayAll e cs w = Some (rs, w')
     \<and> map taskId rs = map (tid \<circ> task) cs
     \<and> map entry_action rs = map (replayed_as \<circ> action) cs
     \<and> list_all (\<lambda>r. success (result r)) rs
     \<and> ss_getTasks w' = Some L' \<and> ss_getOfflineChanges w' = Some q' \<and> isOnline w'
     \<and> requests w' = requests w @ new \<and> subseq new (map request_of cs)
     \<and> ((\<forall>c \<in> set cs. tid (task c) \<notin> tid ` set L) \<longrightarrow> new = map request_of cs)"
  using assms
proof (induction cs arbitrary: w L q)
  case Nil
  then show ?case by simp
next
  case (Cons c cs)
  from replayChange_spec [OF Cons.prems, of e c]
  obtain r w1 L1 q1 new1 where s: "replayChange e c w = Some (r, w1)"
    and r: "taskId r = tid (task c)" "entry_action r = replayed_as (action c)"
      "success (result r)"
    and w1: "ss_getTasks w1 = Some L1" "ss_getOfflineChanges w1 = Some q1" "isOnline w1"
    and n1: "requests w1 = requests w @ new1" "new1 = [] \<or> new1 = [request_of c]"
    and a1: "tid (task c) \<notin> tid ` set L \<longrightarrow> new1 = [request_of c] \<and> L1 = L"
    by blast
  from Cons.IH [OF w1]
  obtain rs w2 L2 q2 new2 where t: "replayAll e cs w1 = Some (rs, w2)"
    and rs: "map taskId rs = map (tid \<circ> task) cs"
      "map entry_action rs = map (replayed_as \<circ> action) cs"
      "list_all (\<lambda>r. success (result r)) rs"
    and w2: "ss_getTasks w2 = Some L2" "ss_getOfflineChanges w2 = Some q2" "isOnline w2"
    and n2: "requests w2 = requests w1 @ new2" "subseq new2 (map request_of cs)"
    and a2: "(\<forall>c \<in> set cs. tid (task c) \<notin> tid ` set L1) \<longrightarrow> new2 = map request_of cs"
    by blast
  have e: "replayAll e (c # cs) w = Some (r # rs, w2)"
    using s t by simp
  have rq: "requests w2 = requests w @ (new1 @ new2)"
    using n1 n2 by simp
  have sub: "subseq (new1 @ new2) (map request_of (c # cs))"
    using n1(2) n2(2) by auto
  have all: "(\<forall>x \<in> set (c # cs). tid (task x) \<notin> tid ` set L) \<longrightarrow>
      new1 @ new2 = map request_of (c # cs)"
    using a1 a2 by simp
  from e r rs w2 rq sub all show ?case
    by (intro exI [of _ "r # rs"] exI [of _ w2] exI [of _ L2] exI [of _ q2]
          exI [of _ "new1 @ new2"]) simp
qed

lemma sync_offline: "\<not> isOnline w \<Longrightarrow> syncOfflineChanges e w = Some (sync_refused, w)"
  by (simp add: syncOfflineChanges_def sync_refused_def)

lemma sync_empty:
  "isOnline w \<Longrightarrow> ss_getOfflineChanges w = Some [] \<Longrightarrow>
   syncOfflineChanges e w = Some (sync_done [], w)"
  by (simp add: syncOfflineChanges_def sync_done_def)

lemma sync_online:
  assumes L: "ss_getTasks w = Some L" and q: "ss_getOfflineChanges w = Some cs"
    and on: "isOnline w" and ne: "cs \<noteq> []"
  shows "\<exists>rs w' new. syncOfflineChanges e w = Some (sync_done rs, w')
     \<and> map taskId rs = map (tid \<circ> task) cs
     \<and> map entry_action rs = map (replayed_as \<circ> action) cs
     \<and> list_all (\<lambda>r. success (result r)) rs
     \<and> storage w' OFFLINE_CHANGES = None \<and> storage w' ''CACHE_tasks_list'' = None
     \<and> requests w' = requests w @ new \<and> subseq new (map request_of cs)
     \<and> ((\<forall>c \<in> set cs. tid (task c) \<notin> tid ` set L) \<longrightarrow> new = map request_of cs)"
proof -
  from replayAll_spec [OF L q on, of e cs]
  obtain rs w1 new where r: "replayAll e cs w = Some (rs, w1)"
    and m: "map taskId rs = map (tid \<circ> task) cs"
      "map entry_action rs = map (replayed_as \<circ> action) cs"
      "list_all (\<lambda>r. success (result r)) rs"
    and n: "requests w1 = requests w @ new" "subseq new (map request_of cs)"
      "(\<forall>c \<in> set cs. tid (task c) \<notin> tid ` set L) \<longrightarrow> new = map request_of cs"
    by blast
  let ?w' = "snd (ss_remove ''CACHE_tasks_list'' (snd (ss_clearOfflineChanges w1)))"
  from r q on ne have "syncOfflineChanges e w = Some (sync_done rs, ?w')"
    by (simp add: syncOfflineChanges_def sync_done_def)
  moreover have "storage ?w' OFFLINE_CHANGES = None" "storage ?w' ''CACHE_tasks_list'' = None"
    "requests ?w' = requests w1"
    by (simp_all add: ss_clearOfflineChanges_def remove_frame)
  ultimately show ?thesis using m n
    by (intro exI [of _ rs] exI [of _ ?w'] exI [of _ new]) simp
qed

text \<open>
  C6, as the code has it. Offline, \<open>syncOfflineChanges\<close> returns the failure at once:
  the world is returned as it was and nothing of the store is consulted (the statement
  asks nothing of the store). Online with a queue that is not empty, it replays every
  queued change in turn (one result per change, each reporting success, whatever the
  remote system answers), then removes the \<open>OFFLINE_CHANGES\<close> key, which drops also
  the changes that failing replays have put back, and removes the cache entry of the tasks
  collection. Online with an empty queue, it returns success with no results and leaves
  the store, the cache entry included, as it was.
\<close>

theorem sync_drains_queue:
  "(\<not> isOnline w \<longrightarrow> syncOfflineChanges e w = Some (sync_refused, w))
   \<and> (isOnline w \<and> ss_getTasks w = Some L \<and> ss_getOfflineChanges w = Some cs \<and> cs \<noteq> [] \<longrightarrow>
        (\<exists>rs w'. syncOfflineChanges e w = Some (sync_done rs, w')
           \<and> map taskId rs = map (tid \<circ> task) cs
           \<and> list_all (\<lambda>r. success (result r)) rs
           \<and> storage w' OFFLINE_CHANGES = None \<and> ss_getOfflineChanges w' = Some []
           \<and> storage w' ''CACHE_tasks_list'' = None))
   \<and> (isOnline w \<and> ss_getOfflineChanges w = Some [] \<longrightarrow>
        syncOfflineChanges e w = Some (sync_done [], w))"
proof -
  have a: "\<not> isOnline w \<longrightarrow> syncOfflineChanges e w = Some (sync_refused, w)"
    by (simp add: sync_offline)
  have c: "isOnline w \<and> ss_getOfflineChanges w = Some [] \<longrightarrow>
        syncOfflineChanges e w = Some (sync_done [], w)"
    by (simp add: sync_empty)
  have b: "isOnline w \<and> ss_getTasks w = Some L \<and> ss_getOfflineChanges w = Some cs \<and> cs \<noteq> [] \<longrightarrow>
        (\<exists>rs w'. syncOfflineChanges e w = Some (sync_done rs, w')
           \<and> map taskId rs = map (tid \<circ> task) cs
           \<and> list_all (\<lambda>r. success (result r)) rs
           \<and> storage w' OFFLINE_CHANGES = None \<and> ss_getOfflineChanges w' = Some []
           \<and> storage w' ''CACHE_tasks_list'' = None)"
  proof
    assume h: "isOnline w \<and> ss_getTasks w = Some L \<and> ss_getOfflineChanges w = Some cs \<and> cs \<noteq> []"
    then have "ss_getTasks w = Some L" "ss_getOfflineChanges w = Some cs" "isOnline w" "cs \<noteq> []"
      by simp_all
    from sync_online [OF this, of e]
    obtain rs w' where s: "syncOfflineChanges e w = Some (sync_done rs, w')"
      and m: "map taskId rs = map (tid \<circ> task) cs" "list_all (\<lambda>r. success (result r)) rs"
      and k: "storage w' OFFLINE_CHANGES = None" "storage w' ''CACHE_tasks_list'' = None"
      by blast
    from k have "ss_getOfflineChanges w' = Some []"
      by (simp add: ss_getOfflineChanges_def ss_get_def)
    with s m k show "\<exists>rs w'. syncOfflineChanges e w = Some (sync_done rs, w')
           \<and> map taskId rs = map (tid \<circ> task) cs
           \<and> list_all (\<lambda>r. success (result r)) rs
           \<and> storage w' OFFLINE_CHANGES = None \<and> ss_getOfflineChanges w' = Some []
           \<and> storage w' ''CACHE_tasks_list'' = None"
      by blast
  qed
  from a b c show ?thesis by blast
qed

lemma abc_world_facts:
  "isOnline abc_world" "ss_getTasks abc_world = Some []"
  "ss_getOfflineChanges abc_world = Some queue_abc" "queue_abc \<noteq> []"
  by (simp_all add: abc_world_def world0_def ss_getTasks_def ss_getOfflineChanges_def
        ss_get_def TASKS_def OFFLINE_CHANGES_def queue_abc_def)

theorem sync_drains_queue_witness:
  "\<not> isOnline offline_world
   \<and> syncOfflineChanges failing offline_world = Some (sync_refused, offline_world)
   \<and> isOnline abc_world \<and> ss_getTasks abc_world = Some []
   \<and> ss_getOfflineChanges abc_world = Some queue_abc \<and> queue_abc \<noteq> []
   \<and> (\<exists>rs w'. syncOfflineChanges failing abc_world = Some (sync_done rs, w')
         \<and> map taskId rs = [Some ''1'', Some ''2'', Some ''3'']
         \<and> list_all (\<lambda>r. success (result r)) rs
         \<and> storage w' OFFLINE_CHANGES = None \<and> ss_getOfflineChanges w' = Some []
         \<and> storage w' ''CACHE_tasks_list'' = None)
   \<and> isOnline world0 \<and> ss_getOfflineChanges world0 = Some []
   \<and> syncOfflineChanges serving world0 = Some (sync_done [], world0)"
proof -
  have a: "\<not> isOnline offline_world"
    by (simp add: offline_world_def)
  have b: "isOnline world0"
    by (simp add: world0_def)
  have c: "map (tid \<circ> task) queue_abc = [Some ''1'', Some ''2'', Some ''3'']"
    by (simp add: queue_abc_def queued_change_def)
  from sync_drains_queue [of offline_world failing "[]" "[]"]
    sync_drains_queue [of abc_world failing "[]" queue_abc]
    sync_drains_queue [of world0 serving "[]" "[]"]
    a b c abc_world_facts world0_queue
  show ?thesis by simp
qed

text \<open>
  C6 as stated fails for an empty queue: online, with nothing queued and a cache entry
  for the tasks collection, \<open>syncOfflineChanges\<close> returns before the clean-up and the
  cache entry is still there.
\<close>

theorem sync_empty_queue_counterexample:
  "isOnline cached_world
   \<and> syncOfflineChanges serving cached_world = Some (sync_done [], cached_world)
   \<and> storage cached_world ''CACHE_tasks_list''
        = Some (Json (Envelope (Tasks [remote1]) 900 SHORT))"
  by (simp add: syncOfflineChanges_def ss_getOfflineChanges_def ss_get_def sync_done_def
        cached_world_def world0_def OFFLINE_CHANGES_def)

text \<open>
  C7. \<open>addToOfflineChangesQueue\<close> appends the new change at the end of the stored list.
  \<open>syncOfflineChanges\<close> replays the stored list from the front: its results name the
  queued tasks and actions in stored order, and the gateway calls it makes are a
  subsequence of the queued changes' requests in that order (a delete of a permanent
  local task makes no call). When no queued id belongs to a permanent local task, the
  calls are exactly the requests of the queued changes, first queued first.
\<close>

theorem offline_queue_fifo:
  "(ss_getOfflineChanges w = Some q \<longrightarrow>
      (\<exists>w'. addToOfflineChangesQueue e act t w = Some w'
         \<and> ss_getOfflineChanges w' = Some (q @ [enqueued e act t w])))
   \<and> (isOnline w \<and> ss_getTasks w = Some L \<and> ss_getOfflineChanges w = Some cs \<and> cs \<noteq> [] \<longrightarrow>
        (\<exists>rs w' new. syncOfflineChanges e w = Some (sync_done rs, w')
           \<and> map taskId rs = map (tid \<circ> task) cs
           \<and> map entry_action rs = map (replayed_as \<circ> action) cs
           \<and> requests w' = requests w @ new \<and> subseq new (map request_of cs)
           \<and> ((\<forall>c \<in> set cs. tid (task c) \<notin> tid ` set L) \<longrightarrow> new = map request_of cs)))"
proof -
  have a: "ss_getOfflineChanges w = Some q \<longrightarrow>
      (\<exists>w'. addToOfflineChangesQueue e act t w = Some w'
         \<and> ss_getOfflineChanges w' = Some (q @ [enqueued e act t w]))"
    using enqueue_spec [of w q e act t] by blast
  have b: "isOnline w \<and> ss_getTasks w = Some L \<and> ss_getOfflineChanges w = Some cs \<and> cs \<noteq> [] \<longrightarrow>
        (\<exists>rs w' new. syncOfflineChanges e w = Some (sync_done rs, w')
           \<and> map taskId rs = map (tid \<circ> task) cs
           \<and> map entry_action rs = map (replayed_as \<circ> action) cs
           \<and> requests w' = requests w @ new \<and> subseq new (map request_of cs)
           \<and> ((\<forall>c \<in> set cs. tid (task c) \<notin> tid ` set L) \<longrightarrow> new = map request_of cs))"
  proof
    assume h: "isOnline w \<and> ss_getTasks w = Some L \<and> ss_getOfflineChanges w = Some cs \<and> cs \<noteq> []"
    then have "ss_getTasks w = Some L" "ss_getOfflineChanges w = Some cs" "isOnline w" "cs \<noteq> []"
      by simp_all
    from sync_online [OF this, of e]
    show "\<exists>rs w' new. syncOfflineChanges e w = Some (sync_done rs, w')
           \<and> map taskId rs = map (tid \<circ> task) cs
           \<and> map entry_action rs = map (replayed_as \<circ> action) cs
           \<and> requests w' = requests w @ new \<and> subseq new (map request_of cs)
           \<and> ((\<forall>c \<in> set cs. tid (task c) \<notin> tid ` set L) \<longrightarrow> new = map request_of cs)"
      by blast
  qed
  from a b show ?thesis by blast
qed

theorem offline_queue_fifo_witness:
  "ss_getOfflineChanges ab_world = Some (take 2 queue_abc)
   \<and> (\<exists>w'. addToOfflineChangesQueue serving ''create'' (no_fields\<lparr>tid := Some ''3''\<rparr>) ab_world
              = Some w'
         \<and> ss_getOfflineChanges w' = Some queue_abc)
   \<and> isOnline abc_world \<and> ss_getTasks abc_world = Some []
   \<and> ss_getOfflineChanges abc_world = Some queue_abc \<and> queue_abc \<noteq> []
   \<and> (\<exists>rs w'. syncOfflineChanges serving abc_world = Some (sync_done rs, w')
         \<and> map taskId rs = [Some ''1'', Some ''2'', Some ''3'']
         \<and> map entry_action rs = [''update'', ''delete'', ''create'']
         \<and> requests w' =
              [put_request (Some ''1'') (no_fields\<lparr>tid := Some ''1'', synced := Some False\<rparr>),
               delete_request (Some ''2''),
               put_request (Some ''3'') (no_fields\<lparr>tid := Some ''3'', synced := Some False\<rparr>)])"
proof -
  have a: "ss_getOfflineChanges ab_world = Some (take 2 queue_abc)"
    by (simp add: ab_world_def world0_def ss_getOfflineChanges_def ss_get_def
          OFFLINE_CHANGES_def queue_abc_def)
  have b: "take 2 queue_abc @ [enqueued serving ''create'' (no_fields\<lparr>tid := Some ''3''\<rparr>) ab_world]
      = queue_abc"
    by (simp add: queue_abc_def queued_change_def enqueued_def ab_world_def world0_def
          no_fields_def)
  have c: "map (tid \<circ> task) queue_abc = [Some ''1'', Some ''2'', Some ''3'']"
    by (simp add: queue_abc_def queued_change_def)
  have d: "map (replayed_as \<circ> action) queue_abc = [''update'', ''delete'', ''create'']"
    by (simp add: queue_abc_def queued_change_def replayed_as_def)
  have e: "map request_of queue_abc =
      [put_request (Some ''1'') (no_fields\<lparr>tid := Some ''1'', synced := Some False\<rparr>),
       delete_request (Some ''2''),
       put_request (Some ''3'') (no_fields\<lparr>tid := Some ''3'', synced := Some False\<rparr>)]"
    by (simp add: queue_abc_def queued_change_def request_of_def)
  have f: "requests abc_world = []"
    by (simp add: abc_world_def world0_def)
  from offline_queue_fifo [of ab_world "take 2 queue_abc" serving "''create''"
      "no_fields\<lparr>tid := Some ''3''\<rparr>" "[]" "[]"]
    offline_queue_fifo [of abc_world "[]" serving "''create''" no_fields "[]" queue_abc]
    a b c d e f abc_world_facts
  show ?thesis
    by (simp, elim exE conjE, intro exI conjI) assumption+
qed

end
